theory Spec2Isabelle
  imports Main
begin

chapter \<open>Banda: reactive state, plugins, forms, table, date picker and modal\<close>

text \<open>
  A shallow embedding of the parts of the Banda UI library that its specification makes
  claims about. Each section gives the source file and function a definition is
  translated from. Effects are explicit: mutable module state is a record passed through,
  callbacks are recorded in call logs, thrown errors are values.
\<close>

section \<open>JavaScript values and strict inequality\<close>

text \<open>
  The values a state cell holds. \<open>JNum\<close> stands for the integral numbers, \<open>JNaN\<close> for
  the one number that is unequal to itself, \<open>JRef\<close> for an object by its identity.
  \<open>strict_neq a b\<close> is JavaScript's \<^verbatim>\<open>a !== b\<close>.
\<close>

datatype jsval = JUndefined | JNull | JBool bool | JNum int | JNaN | JStr string | JRef nat

definition strict_neq :: "jsval \<Rightarrow> jsval \<Rightarrow> bool" where
  "strict_neq a b = (a = JNaN \<or> b = JNaN \<or> a \<noteq> b)"

section \<open>core/state.ts: createState\<close>

text \<open>
  \<^verbatim>\<open>createState\<close> closes over \<^verbatim>\<open>value\<close> and \<^verbatim>\<open>subscribers\<close>, a \<^verbatim>\<open>Set\<close> of callbacks.
  A callback is known by its identity (a number); the set is the list of its members in
  insertion order. \<open>calls\<close> records every subscriber invocation, in order, with the two
  arguments it received.
\<close>

type_synonym cb_id = nat

record cell =
  cur :: jsval
  subscribers :: "cb_id list"
  calls :: "(cb_id \<times> jsval \<times> jsval) list"

definition createState :: "jsval \<Rightarrow> cell" where
  "createState initialValue = \<lparr>cur = initialValue, subscribers = [], calls = []\<rparr>"

definition get_state :: "cell \<Rightarrow> jsval" where
  "get_state c = cur c"

text \<open>\<^verbatim>\<open>Set.prototype.add\<close> and \<^verbatim>\<open>Set.prototype.delete\<close> outside an iteration.\<close>

definition subscribe :: "cb_id \<Rightarrow> cell \<Rightarrow> cell" where
  "subscribe cb c =
     (if cb \<in> set (subscribers c) then c else c\<lparr>subscribers := subscribers c @ [cb]\<rparr>)"

definition unsubscribe :: "cb_id \<Rightarrow> cell \<Rightarrow> cell" where
  "unsubscribe cb c = c\<lparr>subscribers := removeAll cb (subscribers c)\<rparr>"

text \<open>
  What a subscriber does to the state it is subscribed to while it runs: it may subscribe
  a callback, call an unsubscribe function, or throw. The behaviour of a callback is the
  list of these effects, given the arguments \<^verbatim>\<open>(value, prevValue)\<close> it is called with.
  A callback that calls \<^verbatim>\<open>set\<close> on the state it is notified by starts a notification
  inside the running one; such callbacks have no behaviour here, and the properties of
  \<^verbatim>\<open>set\<close> below are properties of callbacks that only subscribe, unsubscribe or throw.
\<close>

datatype action = Subscribe cb_id | Unsubscribe cb_id | Throw

type_synonym behaviour = "cb_id \<Rightarrow> jsval \<Rightarrow> jsval \<Rightarrow> action list"

text \<open>
  The loop \<^verbatim>\<open>for (const subscriber of subscribers) subscriber(value, prevValue)\<close> runs
  a live iterator over the \<^verbatim>\<open>Set\<close>: a member added during the loop is appended and will
  be visited, a member deleted before its turn is not visited, and a member deleted and
  added again is a new entry at the end. The iteration state is the members already passed
  (\<open>visited\<close>), those still ahead (\<open>pending\<close>), and the invocations made so far.
\<close>

record iter =
  visited :: "cb_id list"
  pending :: "cb_id list"
  invoked :: "cb_id list"

fun run_actions :: "action list \<Rightarrow> iter \<Rightarrow> iter + iter" where
  "run_actions [] it = Inr it"
| "run_actions (Subscribe g # as) it =
     run_actions as
       (if g \<in> set (visited it) \<or> g \<in> set (pending it) then it
        else it\<lparr>pending := pending it @ [g]\<rparr>)"
| "run_actions (Unsubscribe g # as) it =
     run_actions as
       (it\<lparr>visited := removeAll g (visited it), pending := removeAll g (pending it)\<rparr>)"
| "run_actions (Throw # as) it = Inl it"

text \<open>
  The fuel bounds the number of loop iterations; \<open>None\<close> means the loop has not finished
  within it. \<open>Inl\<close> is an exception leaving the loop, \<open>Inr\<close> its normal end.
\<close>

fun notify_loop :: "nat \<Rightarrow> (cb_id \<Rightarrow> action list) \<Rightarrow> iter \<Rightarrow> (iter + iter) option" where
  "notify_loop 0 beh it = None"
| "notify_loop (Suc n) beh it =
     (case pending it of
        [] \<Rightarrow> Some (Inr it)
      | f # rest \<Rightarrow>
          (case run_actions (beh f)
                  (it\<lparr>visited := visited it @ [f], pending := rest,
                      invoked := invoked it @ [f]\<rparr>) of
             Inl it' \<Rightarrow> Some (Inl it')
           | Inr it' \<Rightarrow> notify_loop n beh it'))"

datatype set_arg = Value jsval | Updater "jsval \<Rightarrow> jsval"

text \<open>
  \<^verbatim>\<open>typeof newValue === 'function' ? newValue(prevValue) : newValue\<close>. No \<open>jsval\<close> is a
  function, so every function argument of \<^verbatim>\<open>set\<close> is an \<open>Updater\<close>.
\<close>

definition new_value :: "set_arg \<Rightarrow> jsval \<Rightarrow> jsval" where
  "new_value newValue prevValue =
     (case newValue of Updater g \<Rightarrow> g prevValue | Value x \<Rightarrow> x)"

definition finish :: "cell \<Rightarrow> jsval \<Rightarrow> jsval \<Rightarrow> iter \<Rightarrow> cell" where
  "finish c v prev it =
     c\<lparr>subscribers := visited it @ pending it,
       calls := calls c @ map (\<lambda>f. (f, v, prev)) (invoked it)\<rparr>"

text \<open>
  \<^verbatim>\<open>set\<close>: the new value is stored first, then compared with the previous one by
  \<^verbatim>\<open>!==\<close>. The result is \<open>None\<close> when the notification does not finish within the fuel,
  \<open>Some (Inl c)\<close> when a subscriber threw (the state reached is \<open>c\<close>), \<open>Some (Inr c)\<close>
  when \<^verbatim>\<open>set\<close> returned.
\<close>

definition set_state :: "nat \<Rightarrow> behaviour \<Rightarrow> set_arg \<Rightarrow> cell \<Rightarrow> (cell + cell) option" where
  "set_state fuel beh newValue c =
     (let prevValue = cur c;
          v = new_value newValue prevValue;
          c1 = c\<lparr>cur := v\<rparr>
      in if strict_neq v prevValue
         then (case notify_loop fuel (\<lambda>f. beh f v prevValue)
                      \<lparr>visited = [], pending = subscribers c1, invoked = []\<rparr> of
                 None \<Rightarrow> None
               | Some (Inl it) \<Rightarrow> Some (Inl (finish c1 v prevValue it))
               | Some (Inr it) \<Rightarrow> Some (Inr (finish c1 v prevValue it)))
         else Some (Inr c1))"

text \<open>The statement sequence \<^verbatim>\<open>s.set(x); s.set(x)\<close>: the second call runs if the first returned.\<close>

definition set_twice :: "nat \<Rightarrow> behaviour \<Rightarrow> jsval \<Rightarrow> cell \<Rightarrow> (cell + cell) option" where
  "set_twice fuel beh x c =
     (case set_state fuel beh (Value x) c of
        Some (Inr c1) \<Rightarrow> set_state fuel beh (Value x) c1
      | r \<Rightarrow> r)"

text \<open>The subscribers invoked between two states of a cell, in order.\<close>

definition notified :: "cell \<Rightarrow> cell \<Rightarrow> cb_id list" where
  "notified c c' = map fst (drop (length (calls c)) (calls c'))"

text \<open>
  A bound on the iterations of a notification. A callback weighs one more than the number
  of \<^verbatim>\<open>subscribe\<close> calls it makes; \<open>no_chained_subscribe\<close> says that a callback which
  is subscribed by a running callback makes no \<^verbatim>\<open>subscribe\<close> call itself.
\<close>

fun is_subscribe :: "action \<Rightarrow> bool" where
  "is_subscribe (Subscribe g) = True"
| "is_subscribe _ = False"

definition weight :: "(cb_id \<Rightarrow> action list) \<Rightarrow> cb_id \<Rightarrow> nat" where
  "weight beh f = Suc (length (filter is_subscribe (beh f)))"

definition work :: "(cb_id \<Rightarrow> action list) \<Rightarrow> cb_id list \<Rightarrow> nat" where
  "work beh fs = sum_list (map (weight beh) fs)"

definition fuel_bound :: "(cb_id \<Rightarrow> action list) \<Rightarrow> cb_id list \<Rightarrow> nat" where
  "fuel_bound beh fs = Suc (work beh fs)"

definition no_chained_subscribe :: "(cb_id \<Rightarrow> action list) \<Rightarrow> bool" where
  "no_chained_subscribe beh =
     (\<forall>f g. Subscribe g \<in> set (beh f) \<longrightarrow> filter is_subscribe (beh g) = [])"



definition observers :: behaviour where
  "observers f v p = []"


section \<open>core/state.ts: createComputed and batch\<close>

text \<open>
  A computed state with its dependencies, which are states made by \<^verbatim>\<open>createState\<close>.
  \<^verbatim>\<open>createComputed\<close> subscribes one closure to every dependency (\<open>Recompute\<close>); a
  dependency may have plain observers as well. The
  subscribers of the computed state and these observers only record that they were called,
  so each \<^verbatim>\<open>for ... of subscribers\<close> loop visits the members present at its start.
  \<open>calls_c\<close> lists the invocations of the computed state's subscribers, \<open>calls_src\<close>
  those of the observers; \<^verbatim>\<open>batchDepth\<close> and \<^verbatim>\<open>batchQueue\<close> are the module's variables.
\<close>

datatype listener = Recompute | Observer cb_id

record source =
  src_cur :: jsval
  src_subscribers :: "listener list"

record reactive =
  dependencies_c :: "source list"
  cachedValue :: jsval
  subscribers_c :: "cb_id list"
  calls_c :: "(cb_id \<times> jsval \<times> jsval) list"
  calls_src :: "(cb_id \<times> jsval \<times> jsval) list"
  batchDepth :: nat
  batchQueue :: "(nat \<times> jsval) list list"

text \<open>\<^verbatim>\<open>getValue\<close> applies \<^verbatim>\<open>compute\<close> to the dependencies' current values.\<close>

definition getValue :: "(jsval list \<Rightarrow> jsval) \<Rightarrow> reactive \<Rightarrow> jsval" where
  "getValue compute w = compute (map src_cur (dependencies_c w))"

definition createComputed :: "jsval list \<Rightarrow> (jsval list \<Rightarrow> jsval) \<Rightarrow> reactive" where
  "createComputed initials compute =
     \<lparr>dependencies_c = map (\<lambda>v. \<lparr>src_cur = v, src_subscribers = [Recompute]\<rparr>) initials,
      cachedValue = compute initials,
      subscribers_c = [], calls_c = [], calls_src = [],
      batchDepth = 0, batchQueue = []\<rparr>"

definition subscribe_c :: "cb_id \<Rightarrow> reactive \<Rightarrow> reactive" where
  "subscribe_c cb w =
     (if cb \<in> set (subscribers_c w) then w else w\<lparr>subscribers_c := subscribers_c w @ [cb]\<rparr>)"

text \<open>The closure subscribed to each dependency: recompute, compare with the cached value
  by \<^verbatim>\<open>!==\<close>, notify on a change.\<close>

definition on_dependency_change :: "(jsval list \<Rightarrow> jsval) \<Rightarrow> reactive \<Rightarrow> reactive" where
  "on_dependency_change compute w =
     (let prevValue = cachedValue w;
          w1 = w\<lparr>cachedValue := getValue compute w\<rparr>
      in if strict_neq (cachedValue w1) prevValue
         then w1\<lparr>calls_c := calls_c w1
                   @ map (\<lambda>f. (f, cachedValue w1, prevValue)) (subscribers_c w1)\<rparr>
         else w1)"

fun run_listener ::
  "(jsval list \<Rightarrow> jsval) \<Rightarrow> jsval \<Rightarrow> jsval \<Rightarrow> listener \<Rightarrow> reactive \<Rightarrow> reactive" where
  "run_listener compute v prev Recompute w = on_dependency_change compute w"
| "run_listener compute v prev (Observer f) w = w\<lparr>calls_src := calls_src w @ [(f, v, prev)]\<rparr>"

text \<open>\<^verbatim>\<open>set\<close> of the dependency at position \<open>i\<close>: as \<open>set_state\<close>, with these listeners.
  It reads neither \<^verbatim>\<open>batchDepth\<close> nor \<^verbatim>\<open>batchQueue\<close>.\<close>

definition set_dependency ::
  "(jsval list \<Rightarrow> jsval) \<Rightarrow> nat \<Rightarrow> set_arg \<Rightarrow> reactive \<Rightarrow> reactive" where
  "set_dependency compute i newValue w =
     (if i < length (dependencies_c w)
      then (let s = dependencies_c w ! i;
                prevValue = src_cur s;
                v = new_value newValue prevValue;
                w1 = w\<lparr>dependencies_c := (dependencies_c w)[i := s\<lparr>src_cur := v\<rparr>]\<rparr>
            in if strict_neq v prevValue
               then fold (run_listener compute v prevValue) (src_subscribers s) w1
               else w1)
      else w)"

text \<open>
  Programs over the state: a \<^verbatim>\<open>set\<close>, a \<^verbatim>\<open>batch(() => {...})\<close>, and
  \<^verbatim>\<open>queueBatchCallback(fn)\<close> for a callback \<open>fn\<close> that sets dependencies to given values.
  \<^verbatim>\<open>batch\<close> raises the depth, runs its body and, in \<^verbatim>\<open>finally\<close>, lowers the depth and at
  depth 0 runs and empties the queue.
\<close>

datatype stmt =
    SetDep nat set_arg
  | Batch "stmt list"
  | QueueBatchCallback "(nat \<times> jsval) list"

definition run_callback :: "(jsval list \<Rightarrow> jsval) \<Rightarrow> (nat \<times> jsval) list \<Rightarrow> reactive \<Rightarrow> reactive" where
  "run_callback compute th w = fold (\<lambda>e. set_dependency compute (fst e) (Value (snd e))) th w"

definition queueBatchCallback ::
  "(jsval list \<Rightarrow> jsval) \<Rightarrow> (nat \<times> jsval) list \<Rightarrow> reactive \<Rightarrow> reactive" where
  "queueBatchCallback compute th w =
     (if batchDepth w > 0 then w\<lparr>batchQueue := batchQueue w @ [th]\<rparr>
      else run_callback compute th w)"

definition batch_enter :: "reactive \<Rightarrow> reactive" where
  "batch_enter w = w\<lparr>batchDepth := batchDepth w + 1\<rparr>"

definition batch_leave :: "(jsval list \<Rightarrow> jsval) \<Rightarrow> reactive \<Rightarrow> reactive" where
  "batch_leave compute w =
     (let w1 = w\<lparr>batchDepth := batchDepth w - 1\<rparr>
      in if batchDepth w1 = 0
         then (let queue = batchQueue w1;
                   w2 = w1\<lparr>batchQueue := []\<rparr>
               in fold (run_callback compute) queue w2)
         else w1)"

fun exec :: "(jsval list \<Rightarrow> jsval) \<Rightarrow> stmt \<Rightarrow> reactive \<Rightarrow> reactive"
  and exec_all :: "(jsval list \<Rightarrow> jsval) \<Rightarrow> stmt list \<Rightarrow> reactive \<Rightarrow> reactive" where
  "exec compute (SetDep i newValue) w = set_dependency compute i newValue w"
| "exec compute (Batch body) w = batch_leave compute (exec_all compute body (batch_enter w))"
| "exec compute (QueueBatchCallback th) w = queueBatchCallback compute th w"
| "exec_all compute [] w = w"
| "exec_all compute (st # rest) w = exec_all compute rest (exec compute st w)"

text \<open>The statements that are a plain \<^verbatim>\<open>set\<close>.\<close>

fun is_set :: "stmt \<Rightarrow> bool" where
  "is_set (SetDep i a) = True"
| "is_set _ = False"

text \<open>An example: \<^verbatim>\<open>createComputed([a, b], (x, y) => x + y)\<close> over two states holding 0,
  with one subscriber, callback 7. \<^verbatim>\<open>x + y\<close> is given for two numbers and for two strings,
  which is all the example needs.\<close>

definition js_add :: "jsval \<Rightarrow> jsval \<Rightarrow> jsval" where
  "js_add x y =
     (case (x, y) of
        (JNum m, JNum n) \<Rightarrow> JNum (m + n)
      | (JStr s, JStr t) \<Rightarrow> JStr (s @ t)
      | _ \<Rightarrow> JNaN)"

definition sum2 :: "jsval list \<Rightarrow> jsval" where
  "sum2 vals = (case vals of [x, y] \<Rightarrow> js_add x y | _ \<Rightarrow> JNaN)"

definition sum_of_two :: reactive where
  "sum_of_two = subscribe_c 7 (createComputed [JNum 0, JNum 0] sum2)"

section \<open>core/plugins.ts: the plugin manager\<close>

text \<open>
  A JavaScript \<^verbatim>\<open>Map\<close> is the list of its entries in insertion order: \<^verbatim>\<open>set\<close> on a
  present key replaces the value in place, on a new key appends.
\<close>

fun map_set :: "'k \<Rightarrow> 'v \<Rightarrow> ('k \<times> 'v) list \<Rightarrow> ('k \<times> 'v) list" where
  "map_set k v [] = [(k, v)]"
| "map_set k v ((k', v') # m) = (if k' = k then (k, v) # m else (k', v') # map_set k v m)"

definition map_get :: "'k \<Rightarrow> ('k \<times> 'v) list \<Rightarrow> 'v option" where
  "map_get k m = map_of m k"

definition map_has :: "'k \<Rightarrow> ('k \<times> 'v) list \<Rightarrow> bool" where
  "map_has k m = (map_of m k \<noteq> None)"

definition map_delete :: "'k \<Rightarrow> ('k \<times> 'v) list \<Rightarrow> ('k \<times> 'v) list" where
  "map_delete k m = filter (\<lambda>e. fst e \<noteq> k) m"

text \<open>
  A hook is a function of the plugin's author; it is known by its identity. What a hook
  returns for given arguments, or that it throws (\<open>None\<close>), is given by an environment.
\<close>

type_synonym hook_id = nat

type_synonym hook_env = "hook_id \<Rightarrow> jsval list \<Rightarrow> jsval option"

record plugin_hooks =
  install :: "hook_id option"
  onMount :: "hook_id option"
  onUnmount :: "hook_id option"
  beforeStateUpdate :: "hook_id option"
  afterStateUpdate :: "hook_id option"

record plugin =
  name :: string
  version :: "string option"
  hooks :: "plugin_hooks option"
  provides :: "(string \<times> jsval) list option"
  dependencies :: "string list option"

text \<open>The module-level \<^verbatim>\<open>hookSubscribers\<close>: four arrays of hooks.\<close>

record hook_subscribers =
  subs_onMount :: "hook_id list"
  subs_onUnmount :: "hook_id list"
  subs_beforeStateUpdate :: "hook_id list"
  subs_afterStateUpdate :: "hook_id list"

text \<open>The messages written by \<^verbatim>\<open>console.warn\<close>, \<^verbatim>\<open>console.log\<close> and \<^verbatim>\<open>console.error\<close>,
  and the errors thrown.\<close>

datatype console_msg =
    WarnAlreadyInstalled string
  | WarnOverwrites string string
  | LogInstalled string "string option"
  | LogUninstalled string
  | ErrorInHook string

datatype plugin_error = MissingDependency string string | HookThrew hook_id

text \<open>
  The module state: \<^verbatim>\<open>state.plugins\<close>, \<^verbatim>\<open>state.provides\<close> and \<^verbatim>\<open>hookSubscribers\<close>,
  with the console output and the hook invocations made so far (hook and arguments).
\<close>

record manager =
  state_plugins :: "(string \<times> plugin) list"
  state_provides :: "(string \<times> jsval) list"
  hookSubscribers :: hook_subscribers
  console :: "console_msg list"
  hook_calls :: "(hook_id \<times> jsval list) list"

text \<open>\<^verbatim>\<open>if (plugin.hooks.onMount) hookSubscribers.onMount.push(plugin.hooks.onMount)\<close>,
  and the same for the other three lists.\<close>

definition push_hook :: "hook_id option \<Rightarrow> hook_id list \<Rightarrow> hook_id list" where
  "push_hook h hs = (case h of Some f \<Rightarrow> hs @ [f] | None \<Rightarrow> hs)"

definition register_hooks :: "plugin_hooks option \<Rightarrow> hook_subscribers \<Rightarrow> hook_subscribers" where
  "register_hooks hk hs =
     (case hk of
        None \<Rightarrow> hs
      | Some h \<Rightarrow>
          \<lparr>subs_onMount = push_hook (onMount h) (subs_onMount hs),
           subs_onUnmount = push_hook (onUnmount h) (subs_onUnmount hs),
           subs_beforeStateUpdate = push_hook (beforeStateUpdate h) (subs_beforeStateUpdate hs),
           subs_afterStateUpdate = push_hook (afterStateUpdate h) (subs_afterStateUpdate hs)\<rparr>)"

text \<open>The loop over \<^verbatim>\<open>Object.entries(plugin.provides)\<close>.\<close>

definition register_provide :: "string \<Rightarrow> string \<times> jsval \<Rightarrow> manager \<Rightarrow> manager" where
  "register_provide pname kv m =
     (let m1 = (if map_has (fst kv) (state_provides m)
                then m\<lparr>console := console m @ [WarnOverwrites (fst kv) pname]\<rparr> else m)
      in m1\<lparr>state_provides := map_set (fst kv) (snd kv) (state_provides m1)\<rparr>)"

definition register_provides :: "plugin \<Rightarrow> manager \<Rightarrow> manager" where
  "register_provides p m =
     (case provides p of None \<Rightarrow> m | Some kvs \<Rightarrow> fold (register_provide (name p)) kvs m)"

text \<open>The dependency loop throws at the first name that is not installed.\<close>

definition missing_dependency :: "plugin \<Rightarrow> manager \<Rightarrow> string option" where
  "missing_dependency p m =
     (case dependencies p of
        None \<Rightarrow> None
      | Some deps \<Rightarrow> find (\<lambda>dep. \<not> map_has dep (state_plugins m)) deps)"

text \<open>\<^verbatim>\<open>plugin.hooks?.install?.()\<close>: an install hook that throws leaves \<^verbatim>\<open>use\<close> by the
  exception, after the registration.\<close>

definition call_install :: "hook_env \<Rightarrow> plugin \<Rightarrow> manager \<Rightarrow> (plugin_error + unit) \<times> manager" where
  "call_install env p m =
     (case (case hooks p of None \<Rightarrow> None | Some h \<Rightarrow> install h) of
        None \<Rightarrow> (Inr (), m)
      | Some f \<Rightarrow>
          (let m1 = m\<lparr>hook_calls := hook_calls m @ [(f, [])]\<rparr>
           in if env f [] = None then (Inl (HookThrew f), m1) else (Inr (), m1)))"

text \<open>\<^verbatim>\<open>use(plugin)\<close> returns the error thrown (\<open>Inl\<close>) or normally (\<open>Inr\<close>), and the
  module state it leaves.\<close>

definition use :: "hook_env \<Rightarrow> plugin \<Rightarrow> manager \<Rightarrow> (plugin_error + unit) \<times> manager" where
  "use env p m =
     (if map_has (name p) (state_plugins m)
      then (Inr (), m\<lparr>console := console m @ [WarnAlreadyInstalled (name p)]\<rparr>)
      else case missing_dependency p m of
        Some dep \<Rightarrow> (Inl (MissingDependency (name p) dep), m)
      | None \<Rightarrow>
          (let m1 = m\<lparr>state_plugins := map_set (name p) p (state_plugins m)\<rparr>;
               m2 = m1\<lparr>hookSubscribers := register_hooks (hooks p) (hookSubscribers m1)\<rparr>;
               m3 = register_provides p m2
           in case call_install env p m3 of
                (Inl e, m4) \<Rightarrow> (Inl e, m4)
              | (Inr u, m4) \<Rightarrow>
                  (Inr (), m4\<lparr>console := console m4 @ [LogInstalled (name p) (version p)]\<rparr>)))"

definition inject :: "string \<Rightarrow> manager \<Rightarrow> jsval option" where
  "inject k m = map_get k (state_provides m)"

definition getPlugin :: "string \<Rightarrow> manager \<Rightarrow> plugin option" where
  "getPlugin n m = map_get n (state_plugins m)"

definition hasPlugin :: "string \<Rightarrow> manager \<Rightarrow> bool" where
  "hasPlugin n m = map_has n (state_plugins m)"

definition uninstall :: "string \<Rightarrow> manager \<Rightarrow> bool \<times> manager" where
  "uninstall n m =
     (case map_get n (state_plugins m) of
        None \<Rightarrow> (False, m)
      | Some p \<Rightarrow>
          (let m1 = (case provides p of
                       None \<Rightarrow> m
                     | Some kvs \<Rightarrow>
                         m\<lparr>state_provides := fold map_delete (map fst kvs) (state_provides m)\<rparr>);
               m2 = m1\<lparr>state_plugins := map_delete n (state_plugins m1)\<rparr>
           in (True, m2\<lparr>console := console m2 @ [LogUninstalled n]\<rparr>)))"

text \<open>The triggers call every subscribed hook inside \<^verbatim>\<open>try\<close>/\<^verbatim>\<open>catch\<close>; a hook that
  throws is reported on the console and the loop goes on.\<close>

definition call_hook :: "hook_env \<Rightarrow> string \<Rightarrow> jsval list \<Rightarrow> hook_id \<Rightarrow> manager \<Rightarrow> manager" where
  "call_hook env kind args hook m =
     (let m1 = m\<lparr>hook_calls := hook_calls m @ [(hook, args)]\<rparr>
      in if env hook args = None then m1\<lparr>console := console m1 @ [ErrorInHook kind]\<rparr> else m1)"

definition triggerMount :: "hook_env \<Rightarrow> jsval \<Rightarrow> manager \<Rightarrow> manager" where
  "triggerMount env element m =
     fold (call_hook env ''onMount'' [element]) (subs_onMount (hookSubscribers m)) m"

definition triggerUnmount :: "hook_env \<Rightarrow> jsval \<Rightarrow> manager \<Rightarrow> manager" where
  "triggerUnmount env element m =
     fold (call_hook env ''onUnmount'' [element]) (subs_onUnmount (hookSubscribers m)) m"

definition before_step :: "hook_env \<Rightarrow> jsval \<Rightarrow> hook_id \<Rightarrow> jsval \<times> manager \<Rightarrow> jsval \<times> manager" where
  "before_step env oldValue hook rm =
     (let result = fst rm; m = snd rm;
          m1 = m\<lparr>hook_calls := hook_calls m @ [(hook, [oldValue, result])]\<rparr>
      in case env hook [oldValue, result] of
           None \<Rightarrow> (result, m1\<lparr>console := console m1 @ [ErrorInHook ''beforeStateUpdate'']\<rparr>)
         | Some r \<Rightarrow> (r, m1))"

definition applyBeforeStateUpdate :: "hook_env \<Rightarrow> jsval \<Rightarrow> jsval \<Rightarrow> manager \<Rightarrow> jsval \<times> manager" where
  "applyBeforeStateUpdate env oldValue newValue m =
     fold (before_step env oldValue) (subs_beforeStateUpdate (hookSubscribers m)) (newValue, m)"

definition triggerAfterStateUpdate :: "hook_env \<Rightarrow> jsval \<Rightarrow> manager \<Rightarrow> manager" where
  "triggerAfterStateUpdate env v m =
     fold (call_hook env ''afterStateUpdate'' [v]) (subs_afterStateUpdate (hookSubscribers m)) m"

text \<open>Example plugins: the documentation's \<^verbatim>\<open>base\<close> and an \<^verbatim>\<open>api\<close> plugin that depends on
  it and declares every hook; hooks that return their last argument and never throw.\<close>

definition empty_manager :: manager where
  "empty_manager = \<lparr>state_plugins = [], state_provides = [],
     hookSubscribers = \<lparr>subs_onMount = [], subs_onUnmount = [], subs_beforeStateUpdate = [],
       subs_afterStateUpdate = []\<rparr>, console = [], hook_calls = []\<rparr>"

definition base_plugin :: plugin where
  "base_plugin = \<lparr>name = ''base'', version = None, hooks = None,
     provides = Some [(''config'', JStr ''/api'')], dependencies = None\<rparr>"

definition api_plugin :: plugin where
  "api_plugin = \<lparr>name = ''api'', version = Some ''1.0.0'',
     hooks = Some \<lparr>install = Some 1, onMount = Some 2, onUnmount = Some 3,
       beforeStateUpdate = Some 4, afterStateUpdate = Some 5\<rparr>,
     provides = Some [(''fetch'', JRef 7)], dependencies = Some [''base'']\<rparr>"

definition quiet :: hook_env where
  "quiet h args = Some (case args of [old, new] \<Rightarrow> new | _ \<Rightarrow> JUndefined)"

text \<open>The hooks invoked between two states of the manager, in order.\<close>

definition invoked_by :: "manager \<Rightarrow> manager \<Rightarrow> hook_id list" where
  "invoked_by m m' = map fst (drop (length (hook_calls m)) (hook_calls m'))"

definition with_base :: manager where
  "with_base = snd (use quiet base_plugin empty_manager)"

definition base_removed :: manager where
  "base_removed = snd (uninstall ''base'' (snd (use quiet api_plugin with_base)))"

section \<open>Form validation: rules, field validators, forms\<close>

text \<open>
  The file of \<^verbatim>\<open>createFieldValidator\<close> and \<^verbatim>\<open>createForm\<close>. A rule maps the field's value to
  \<^verbatim>\<open>{valid, message?}\<close>; a missing message is \<open>None\<close>.
\<close>

record validation_result =
  valid :: bool
  message :: "string option"

type_synonym validation_rule = "string \<Rightarrow> validation_result"

text \<open>Two of the built-in rules: \<^verbatim>\<open>rules.required\<close> and \<^verbatim>\<open>rules.custom\<close>.\<close>

definition required :: "string \<Rightarrow> validation_rule" where
  "required msg = (\<lambda>v. \<lparr>valid = (v \<noteq> ''''), message = (if v = '''' then Some msg else None)\<rparr>)"

definition custom :: "(string \<Rightarrow> bool) \<Rightarrow> string \<Rightarrow> validation_rule" where
  "custom validator msg =
     (\<lambda>v. \<lparr>valid = validator v, message = (if \<not> validator v then Some msg else None)\<rparr>)"

text \<open>
  \<^verbatim>\<open>FieldState\<close>, and a field validator: the closure's rule list and options with the
  content of its state cell; \<open>fvalue\<close> and \<open>fvalid\<close> are the fields \<^verbatim>\<open>value\<close> and
  \<^verbatim>\<open>valid\<close>. The list \<open>errors\<close> holds \<^verbatim>\<open>r.message!\<close> of each failing rule, which is
  \<open>None\<close> where the rule gave no message. Subscribers of the field's state are not part of
  the model.
\<close>

record field_state =
  fvalue :: string
  touched :: bool
  dirty :: bool
  fvalid :: bool
  errors :: "string option list"

record field =
  fieldRules :: "validation_rule list"
  validateOnChange :: bool
  validateOnBlur :: bool
  fstate :: field_state

definition createFieldValidator :: "validation_rule list \<Rightarrow> bool \<Rightarrow> bool \<Rightarrow> field" where
  "createFieldValidator rs onChange onBlur =
     \<lparr>fieldRules = rs, validateOnChange = onChange, validateOnBlur = onBlur,
      fstate = \<lparr>fvalue = '''', touched = False, dirty = False, fvalid = True, errors = []\<rparr>\<rparr>"

text \<open>The inner functions \<^verbatim>\<open>validate(value)\<close> and \<^verbatim>\<open>updateState(newValue)\<close>.\<close>

definition validate_value :: "field \<Rightarrow> string \<Rightarrow> validation_result list" where
  "validate_value f v = map (\<lambda>rule. rule v) (fieldRules f)"

definition rule_errors :: "field \<Rightarrow> string \<Rightarrow> string option list" where
  "rule_errors f v = map message (filter (\<lambda>r. \<not> valid r) (validate_value f v))"

definition updateState :: "string \<Rightarrow> field \<Rightarrow> field" where
  "updateState newValue f =
     (let errs = rule_errors f newValue
      in f\<lparr>fstate := (fstate f)\<lparr>fvalue := newValue, dirty := True,
                                 fvalid := (length errs = 0), errors := errs\<rparr>\<rparr>)"

text \<open>The methods of a field validator.\<close>

definition field_setValue :: "string \<Rightarrow> field \<Rightarrow> field" where
  "field_setValue v f =
     (if validateOnChange f then updateState v f
      else f\<lparr>fstate := (fstate f)\<lparr>fvalue := v, dirty := True\<rparr>\<rparr>)"

definition field_touch :: "field \<Rightarrow> field" where
  "field_touch f =
     (let current = fstate f;
          f1 = f\<lparr>fstate := (fstate f)\<lparr>touched := True\<rparr>\<rparr>
      in if validateOnBlur f \<and> \<not> dirty current then updateState (fvalue current) f1 else f1)"

definition field_validate :: "field \<Rightarrow> bool \<times> field" where
  "field_validate f =
     (let current = fstate f;
          f1 = updateState (fvalue current) f;
          f2 = f1\<lparr>fstate := (fstate f1)\<lparr>touched := True\<rparr>\<rparr>
      in (fvalid (fstate f2), f2))"

definition field_reset :: "field \<Rightarrow> field" where
  "field_reset f =
     f\<lparr>fstate := \<lparr>fvalue = '''', touched = False, dirty = False, fvalid = True, errors = []\<rparr>\<rparr>"

definition field_getErrors :: "field \<Rightarrow> string option list" where
  "field_getErrors f = errors (fstate f)"

definition field_isValid :: "field \<Rightarrow> bool" where
  "field_isValid f = fvalid (fstate f)"

text \<open>
  A form: the keys of its configuration, its fields in the order of
  \<^verbatim>\<open>Object.values(fields)\<close>, the \<^verbatim>\<open>submitting\<close> flag of \<^verbatim>\<open>formState\<close>, every value
  \<^verbatim>\<open>formState.set\<close> was called with, and every argument \<^verbatim>\<open>onSubmit\<close> was called with.
\<close>

record form_field_config =
  rules :: "validation_rule list"
  initialValue :: "string option"

text \<open>How the promise returned by \<^verbatim>\<open>onSubmit\<close> settles, and how \<^verbatim>\<open>handleSubmit\<close> ends:
  it resolves to \<^verbatim>\<open>null\<close> or to the callback's result, or rejects with the callback's error.\<close>

datatype 'r settlement = Fulfilled 'r | Rejected string

datatype 'r submit_result = ReturnedNull | Returned 'r | RejectedWith string

record form =
  config_keys :: "string list"
  form_fields :: "(string \<times> field) list"
  submitting :: bool
  formState_sets :: "bool list"
  onSubmit_calls :: "(string \<times> string) list list"

definition init_field :: "form_field_config \<Rightarrow> field" where
  "init_field fc =
     (let f = createFieldValidator (rules fc) True True
      in case initialValue fc of
           None \<Rightarrow> f
         | Some v \<Rightarrow> if v \<noteq> '''' then field_setValue v f else f)"

definition createForm :: "(string \<times> form_field_config) list \<Rightarrow> form" where
  "createForm config =
     \<lparr>config_keys = map fst config,
      form_fields = map (\<lambda>e. (fst e, init_field (snd e))) config,
      submitting = False, formState_sets = [], onSubmit_calls = []\<rparr>"

definition update_field :: "string \<Rightarrow> (field \<Rightarrow> field) \<Rightarrow> form \<Rightarrow> form" where
  "update_field n g fm =
     fm\<lparr>form_fields := map (\<lambda>e. if fst e = n then (fst e, g (snd e)) else e) (form_fields fm)\<rparr>"

definition setValue :: "string \<Rightarrow> string \<Rightarrow> form \<Rightarrow> form" where
  "setValue n v fm = update_field n (field_setValue v) fm"

definition touchField :: "string \<Rightarrow> form \<Rightarrow> form" where
  "touchField n fm = update_field n field_touch fm"

definition getValues :: "form \<Rightarrow> (string \<times> string) list" where
  "getValues fm =
     map (\<lambda>n. (n, case map_of (form_fields fm) n of Some f \<Rightarrow> fvalue (fstate f) | None \<Rightarrow> ''''))
       (config_keys fm)"

definition getFieldErrors :: "string \<Rightarrow> form \<Rightarrow> string option list" where
  "getFieldErrors n fm = (case map_of (form_fields fm) n of Some f \<Rightarrow> field_getErrors f | None \<Rightarrow> [])"

text \<open>\<^verbatim>\<open>validate()\<close>: the loop over all fields with its flag \<^verbatim>\<open>allValid\<close>.\<close>

fun validate_fields :: "(string \<times> field) list \<Rightarrow> bool \<Rightarrow> bool \<times> (string \<times> field) list" where
  "validate_fields [] allValid = (allValid, [])"
| "validate_fields (e # rest) allValid =
     (let r = field_validate (snd e);
          allValid' = (if \<not> fst r then False else allValid);
          rs = validate_fields rest allValid'
      in (fst rs, (fst e, snd r) # snd rs))"

definition form_validate :: "form \<Rightarrow> bool \<times> form" where
  "form_validate fm =
     (let r = validate_fields (form_fields fm) True in (fst r, fm\<lparr>form_fields := snd r\<rparr>))"

definition form_isValid :: "form \<Rightarrow> bool" where
  "form_isValid fm = list_all (\<lambda>e. field_isValid (snd e)) (form_fields fm)"

definition set_submitting :: "bool \<Rightarrow> form \<Rightarrow> form" where
  "set_submitting b fm = fm\<lparr>submitting := b, formState_sets := formState_sets fm @ [b]\<rparr>"

definition form_reset :: "form \<Rightarrow> form" where
  "form_reset fm =
     set_submitting False (fm\<lparr>form_fields := map (\<lambda>e. (fst e, field_reset (snd e))) (form_fields fm)\<rparr>)"

text \<open>
  \<^verbatim>\<open>handleSubmit\<close> runs in two steps. The first goes up to the \<^verbatim>\<open>await\<close>: it returns
  \<^verbatim>\<open>null\<close> (\<open>Inl\<close>) or has called \<^verbatim>\<open>onSubmit\<close> with the values (\<open>Inr\<close>). The second runs
  when the callback's promise settles: the \<^verbatim>\<open>finally\<close> block, then the result or the error.
  A callback that throws before returning a promise reaches \<^verbatim>\<open>finally\<close> the same way and
  counts as rejected.
\<close>

definition handleSubmit_begin :: "form \<Rightarrow> (unit + (string \<times> string) list) \<times> form" where
  "handleSubmit_begin fm =
     (let r = form_validate fm
      in if \<not> fst r then (Inl (), snd r)
         else (let fm1 = set_submitting True (snd r);
                   vals = getValues fm1
               in (Inr vals, fm1\<lparr>onSubmit_calls := onSubmit_calls fm1 @ [vals]\<rparr>)))"

definition handleSubmit_settle :: "'r settlement \<Rightarrow> form \<Rightarrow> 'r submit_result \<times> form" where
  "handleSubmit_settle s fm =
     (case s of
        Fulfilled result \<Rightarrow> (Returned result, set_submitting False fm)
      | Rejected e \<Rightarrow> (RejectedWith e, set_submitting False fm))"

definition handleSubmit ::
  "((string \<times> string) list \<Rightarrow> 'r settlement) \<Rightarrow> form \<Rightarrow> 'r submit_result \<times> form" where
  "handleSubmit onSubmit fm =
     (case handleSubmit_begin fm of
        (Inl u, fm1) \<Rightarrow> (ReturnedNull, fm1)
      | (Inr vals, fm1) \<Rightarrow> handleSubmit_settle (onSubmit vals) fm1)"

definition isSubmitting :: "form \<Rightarrow> bool" where
  "isSubmitting fm = submitting fm"

text \<open>A field passes when all its rules hold of its value; \<open>validated\<close> is the field after
  a forced validation.\<close>

definition passes :: "field \<Rightarrow> bool" where
  "passes f = list_all (\<lambda>rule. valid (rule (fvalue (fstate f)))) (fieldRules f)"

definition validated :: "field \<Rightarrow> field" where
  "validated f =
     f\<lparr>fstate := \<lparr>fvalue = fvalue (fstate f), touched = True, dirty = True,
                   fvalid = passes f, errors = rule_errors f (fvalue (fstate f))\<rparr>\<rparr>"

text \<open>Example forms and a callback that rejects.\<close>

definition login_form :: form where
  "login_form = createForm
     [(''email'', \<lparr>rules = [required ''This field is required''], initialValue = None\<rparr>),
      (''password'', \<lparr>rules = [required ''This field is required'',
                               custom (\<lambda>v. 8 \<le> length v) ''Must be at least 8 characters''],
                     initialValue = Some ''abc''\<rparr>)]"

definition filled_form :: form where
  "filled_form = createForm
     [(''email'', \<lparr>rules = [required ''This field is required''], initialValue = Some ''a@b.c''\<rparr>)]"

definition failing_submit :: "(string \<times> string) list \<Rightarrow> nat settlement" where
  "failing_submit vals = Rejected ''network''"

section \<open>components/table/table.ts: the sort and paginate pipeline\<close>

text \<open>
  A data row is an object: the list of its properties; a missing property reads as
  \<^verbatim>\<open>undefined\<close>. Arrays are objects with identity: the store maps a reference to an
  array's content, so that sorting in place and copying can be told apart.
\<close>

type_synonym row = "(string \<times> jsval) list"

definition row_get :: "row \<Rightarrow> string \<Rightarrow> jsval" where
  "row_get r k = (case map_of r k of Some v \<Rightarrow> v | None \<Rightarrow> JUndefined)"

record store =
  arrays :: "nat \<Rightarrow> row list"
  next_ref :: nat

definition new_array :: "row list \<Rightarrow> store \<Rightarrow> nat \<times> store" where
  "new_array xs s =
     (next_ref s, s\<lparr>arrays := (arrays s)(next_ref s := xs), next_ref := Suc (next_ref s)\<rparr>)"

text \<open>
  \<^verbatim>\<open>Array.prototype.sort(compareFn)\<close> sorts in place and is stable. It is modelled by
  insertion from the right: an element goes before the first element it does not compare
  greater than. \<^verbatim>\<open>Array.prototype.slice(start, end)\<close> clamps both indices, counting a
  negative one from the end.
\<close>

fun insert_sorted :: "('a \<Rightarrow> 'a \<Rightarrow> int) \<Rightarrow> 'a \<Rightarrow> 'a list \<Rightarrow> 'a list" where
  "insert_sorted cmp x [] = [x]"
| "insert_sorted cmp x (y # ys) =
     (if cmp x y \<le> 0 then x # y # ys else y # insert_sorted cmp x ys)"

definition js_sort :: "('a \<Rightarrow> 'a \<Rightarrow> int) \<Rightarrow> 'a list \<Rightarrow> 'a list" where
  "js_sort cmp xs = foldr (insert_sorted cmp) xs []"

definition sort_in_place :: "(row \<Rightarrow> row \<Rightarrow> int) \<Rightarrow> nat \<Rightarrow> store \<Rightarrow> store" where
  "sort_in_place cmp r s = s\<lparr>arrays := (arrays s)(r := js_sort cmp (arrays s r))\<rparr>"

definition js_slice :: "'a list \<Rightarrow> int \<Rightarrow> int \<Rightarrow> 'a list" where
  "js_slice xs start fin =
     (let len = int (length xs);
          k = (if start < 0 then max (len + start) 0 else min start len);
          final = (if fin < 0 then max (len + fin) 0 else min fin len)
      in take (nat (final - k)) (drop (nat k) xs))"

text \<open>
  \<^verbatim>\<open>SortState\<close>, \<^verbatim>\<open>TableColumn\<close>, \<^verbatim>\<open>PaginationOptions\<close>, and the state a \<^verbatim>\<open>Table\<close> closes
  over: its props, the cells \<^verbatim>\<open>sortState\<close> and \<^verbatim>\<open>currentPage\<close>, the arguments
  \<^verbatim>\<open>onSortChange\<close> was called with, and the number of calls of \<^verbatim>\<open>renderTable\<close>.
  \<open>data\<close> is the reference of the caller's array.
\<close>

datatype sort_direction = Asc | Desc

record sort_state =
  key :: "string option"
  direction :: "sort_direction option"

record table_column =
  col_key :: string
  label :: string
  sortable :: bool

record pagination_options =
  enabled :: bool
  pageSize :: int

record table =
  columns :: "table_column list"
  data :: nat
  pagination :: "pagination_options option"
  sortState :: sort_state
  currentPage :: int
  onSortChange_calls :: "sort_state list"
  renders :: nat

definition Table :: "table_column list \<Rightarrow> nat \<Rightarrow> pagination_options option \<Rightarrow> table" where
  "Table cols d pg =
     \<lparr>columns = cols, data = d, pagination = pg,
      sortState = \<lparr>key = None, direction = None\<rparr>, currentPage = 1,
      onSortChange_calls = [], renders = 0\<rparr>"

text \<open>
  The comparison function of \<^verbatim>\<open>getProcessedData\<close>. The operator \<^verbatim>\<open><\<close> on two cell values
  is the parameter \<open>lt\<close>; \<^verbatim>\<open>aVal > bVal\<close> is \<^verbatim>\<open>bVal < aVal\<close>.
\<close>

definition comparator ::
  "(jsval \<Rightarrow> jsval \<Rightarrow> bool) \<Rightarrow> string \<Rightarrow> sort_direction \<Rightarrow> row \<Rightarrow> row \<Rightarrow> int" where
  "comparator lt k dir a b =
     (let aVal = row_get a k; bVal = row_get b k;
          cmp = (if lt aVal bVal then - 1 else if lt bVal aVal then 1 else 0)
      in if dir = Asc then cmp else - cmp)"

text \<open>
  \<^verbatim>\<open>getProcessedData\<close> copies the data (\<^verbatim>\<open>[...data]\<close>) and sorts the copy when
  \<^verbatim>\<open>sort.key && sort.direction\<close> holds: the key is a non-empty string and the direction
  is set. \<^verbatim>\<open>getPaginatedData\<close> slices the processed array. Both return the reference of the
  resulting array and the store.
\<close>

definition getProcessedData :: "(jsval \<Rightarrow> jsval \<Rightarrow> bool) \<Rightarrow> table \<Rightarrow> store \<Rightarrow> nat \<times> store" where
  "getProcessedData lt t s =
     (let (result, s1) = new_array (arrays s (data t)) s;
          sort = sortState t
      in case (key sort, direction sort) of
           (Some k, Some dir) \<Rightarrow>
             if k \<noteq> '''' then (result, sort_in_place (comparator lt k dir) result s1)
             else (result, s1)
         | _ \<Rightarrow> (result, s1))"

definition getPaginatedData :: "(jsval \<Rightarrow> jsval \<Rightarrow> bool) \<Rightarrow> table \<Rightarrow> store \<Rightarrow> nat \<times> store" where
  "getPaginatedData lt t s =
     (let (result, s1) = getProcessedData lt t s
      in case pagination t of
           Some pg \<Rightarrow>
             if enabled pg
             then (let page = currentPage t;
                       start = (page - 1) * pageSize pg
                   in new_array (js_slice (arrays s1 result) start (start + pageSize pg)) s1)
             else (result, s1)
         | None \<Rightarrow> (result, s1))"

definition toggleSort :: "string \<Rightarrow> table \<Rightarrow> table" where
  "toggleSort k t =
     (let current = sortState t;
          dir = (if key current \<noteq> Some k then Some Asc
                 else if direction current = Some Asc then Some Desc
                 else None);
          newSort = \<lparr>key = (if dir \<noteq> None then Some k else None), direction = dir\<rparr>
      in t\<lparr>sortState := newSort,
           onSortChange_calls := onSortChange_calls t @ [newSort],
           renders := Suc (renders t)\<rparr>)"

text \<open>The header cell's \<^verbatim>\<open>onClick\<close>: \<^verbatim>\<open>col.sortable ? () => toggleSort(col.key) : undefined\<close>.\<close>

definition click_header :: "table_column \<Rightarrow> table \<Rightarrow> table" where
  "click_header col t = (if sortable col then toggleSort (col_key col) t else t)"

text \<open>An example: three rows, sorted by a numeric column, two rows per page.\<close>

definition num_lt :: "jsval \<Rightarrow> jsval \<Rightarrow> bool" where
  "num_lt a b = (case (a, b) of (JNum x, JNum y) \<Rightarrow> x < y | _ \<Rightarrow> False)"

definition people :: "row list" where
  "people = [[(''name'', JStr ''c''), (''age'', JNum 30)],
             [(''name'', JStr ''a''), (''age'', JNum 20)],
             [(''name'', JStr ''b''), (''age'', JNum 40)]]"

definition people_store :: store where
  "people_store = \<lparr>arrays = (\<lambda>r. [])(0 := people), next_ref = 1\<rparr>"

definition age_column :: table_column where
  "age_column = \<lparr>col_key = ''age'', label = ''Age'', sortable = True\<rparr>"

definition people_table :: table where
  "people_table = Table [age_column] 0 (Some \<lparr>enabled = True, pageSize = 2\<rparr>)"

text \<open>Whether \<^verbatim>\<open>getProcessedData\<close> sorts, and the content it produces.\<close>

definition sorting :: "table \<Rightarrow> bool" where
  "sorting t = (case (key (sortState t), direction (sortState t)) of
                  (Some k, Some dir) \<Rightarrow> k \<noteq> '''' | _ \<Rightarrow> False)"

definition processed :: "(jsval \<Rightarrow> jsval \<Rightarrow> bool) \<Rightarrow> table \<Rightarrow> store \<Rightarrow> row list" where
  "processed lt t s =
     (case (key (sortState t), direction (sortState t)) of
        (Some k, Some dir) \<Rightarrow>
          if k \<noteq> '''' then js_sort (comparator lt k dir) (arrays s (data t))
          else arrays s (data t)
      | _ \<Rightarrow> arrays s (data t))"

section \<open>components/datepicker/datepicker.ts: disabled dates\<close>

text \<open>
  A \<^verbatim>\<open>Date\<close> by its local fields: full year, month from 0, day of the month and the
  milliseconds since local midnight. \<^verbatim>\<open>a < b\<close> on two dates compares their time values,
  which is the order of these fields.

  \<^verbatim>\<open>new Date(y, m, d)\<close> reads a year from 0 to 99 as 1900 + y (\<^verbatim>\<open>full_year\<close>), and counts a
  month from 12 on into the following years. \<^verbatim>\<open>mk_date y m d\<close> is \<^verbatim>\<open>new Date(y, m, d)\<close> for a
  day d of that month, as at every call of the source: local midnight of that day.
\<close>

record date =
  year :: int
  month :: nat
  day :: nat
  time :: nat

definition full_year :: "int \<Rightarrow> int" where
  "full_year y = (if 0 \<le> y \<and> y \<le> 99 then 1900 + y else y)"

definition mk_date :: "int \<Rightarrow> nat \<Rightarrow> nat \<Rightarrow> date" where
  "mk_date y m d =
     \<lparr>year = full_year y + int (m div 12), month = m mod 12, day = d, time = 0\<rparr>"

definition date_lt :: "date \<Rightarrow> date \<Rightarrow> bool" where
  "date_lt a b =
     (year a < year b \<or>
      (year a = year b \<and>
        (month a < month b \<or>
         (month a = month b \<and>
           (day a < day b \<or> (day a = day b \<and> time a < time b))))))"

definition isSameDay :: "date \<Rightarrow> date \<Rightarrow> bool" where
  "isSameDay a b = (year a = year b \<and> month a = month b \<and> day a = day b)"

definition isDateDisabled ::
  "date \<Rightarrow> date option \<Rightarrow> date option \<Rightarrow> date list option \<Rightarrow> bool" where
  "isDateDisabled d minDate maxDate disabledDates =
     (if (case minDate of Some m \<Rightarrow> date_lt d m | None \<Rightarrow> False) then True
      else if (case maxDate of Some m \<Rightarrow> date_lt m d | None \<Rightarrow> False) then True
      else case disabledDates of
             Some ds \<Rightarrow> list_ex (\<lambda>e. isSameDay e d) ds
           | None \<Rightarrow> False)"

text \<open>
  The calendar \<^verbatim>\<open>Date\<close> computes with is the Gregorian one, also before its introduction:
  the length of month m (from 0 to 11) of the full year y, and the weekday of its first day
  with Sunday as 0.
\<close>

definition is_leap :: "int \<Rightarrow> bool" where
  "is_leap y = ((y mod 4 = 0 \<and> y mod 100 \<noteq> 0) \<or> y mod 400 = 0)"

definition month_length :: "int \<Rightarrow> nat \<Rightarrow> nat" where
  "month_length y m =
     (if m = 1 then (if is_leap y then 29 else 28)
      else if m = 3 \<or> m = 5 \<or> m = 8 \<or> m = 10 then 30 else 31)"

definition weekday_of_first :: "int \<Rightarrow> nat \<Rightarrow> nat" where
  "weekday_of_first y m =
     (let y' = (if m < 2 then y - 1 else y);
          t = (if m < 12 then [0, 3, 2, 5, 0, 3, 5, 1, 4, 6, 2, 4 :: int] ! m else 0)
      in nat ((y' + y' div 4 - y' div 100 + y' div 400 + t + 1) mod 7))"

text \<open>
  \<^verbatim>\<open>getDaysInMonth\<close> reads \<^verbatim>\<open>new Date(year, month + 1, 0).getDate()\<close>, the last day of the
  month, and \<^verbatim>\<open>getFirstDayOfMonth\<close> reads \<^verbatim>\<open>new Date(year, month, 1).getDay()\<close>. Both go
  through \<^verbatim>\<open>new Date\<close>, so for a year from 0 to 99 they answer for the year 1900 + year:
  \<^verbatim>\<open>getDaysInMonth(0, 1)\<close> is 28, the February of 1900, and \<^verbatim>\<open>getFirstDayOfMonth(50, 0)\<close> is
  0, the Sunday 1 January 1950.
\<close>

definition getDaysInMonth :: "int \<Rightarrow> nat \<Rightarrow> nat" where
  "getDaysInMonth y m = month_length (full_year y + int (m div 12)) (m mod 12)"

definition getFirstDayOfMonth :: "int \<Rightarrow> nat \<Rightarrow> nat" where
  "getFirstDayOfMonth y m = weekday_of_first (full_year y + int (m div 12)) (m mod 12)"

text \<open>
  A day button of the grid: its date, whether it belongs to a neighbouring month, its
  \<^verbatim>\<open>disabled\<close> attribute, and the value of \<^verbatim>\<open>isDisabled\<close> its click handler closed over.
  The picker: the props that decide on disabled dates, the cells \<^verbatim>\<open>isOpen\<close>,
  \<^verbatim>\<open>selectedDate\<close>, \<^verbatim>\<open>viewDate\<close>, and the arguments \<^verbatim>\<open>onChange\<close> was called with.
\<close>

record day_button =
  btn_date :: date
  outside :: bool
  attr_disabled :: bool
  isDisabled :: bool

record datepicker =
  minDate :: "date option"
  maxDate :: "date option"
  disabledDates :: "date list option"
  firstDayOfWeek :: nat
  isOpen :: bool
  selectedDate :: "date option"
  viewDate :: date
  onChange_calls :: "date option list"

text \<open>
  \<^verbatim>\<open>createDayButton\<close> and the loop body for the days of the shown month compute
  \<^verbatim>\<open>isDisabled\<close> the same way; the grid is the trailing days of the previous month, the
  days of the month, and the leading days of the next month up to a full week.
\<close>

definition createDayButton :: "datepicker \<Rightarrow> date \<Rightarrow> bool \<Rightarrow> day_button" where
  "createDayButton p d out =
     (let dis = isDateDisabled d (minDate p) (maxDate p) (disabledDates p)
      in \<lparr>btn_date = d, outside = out, attr_disabled = dis, isDisabled = dis\<rparr>)"

definition buildCalendarGrid :: "datepicker \<Rightarrow> day_button list" where
  "buildCalendarGrid p =
     (let view = viewDate p;
          y = year view;
          m = month view;
          daysInMonth = getDaysInMonth y m;
          firstDay0 = getFirstDayOfMonth y m;
          firstDay = (if firstDayOfWeek p = 1
                      then (if firstDay0 = 0 then 6 else firstDay0 - 1) else firstDay0);
          prevMonth = (if m = 0 then 11 else m - 1);
          prevYear = (if m = 0 then y - 1 else y);
          daysInPrevMonth = getDaysInMonth prevYear prevMonth;
          totalCells = ((firstDay + daysInMonth + 6) div 7) * 7;
          nextMonthDays = totalCells - (firstDay + daysInMonth);
          nextMonth = (if m = 11 then 0 else m + 1);
          nextYear = (if m = 11 then y + 1 else y)
      in map (\<lambda>i. createDayButton p (mk_date prevYear prevMonth (daysInPrevMonth - i)) True)
           (rev [0..<firstDay])
         @ map (\<lambda>d. createDayButton p (mk_date y m d) False) [1..<Suc daysInMonth]
         @ map (\<lambda>d. createDayButton p (mk_date nextYear nextMonth d) True)
             [1..<Suc nextMonthDays])"

text \<open>
  The click handler of a day button, and a click: the browser dispatches no click event on
  a button whose \<^verbatim>\<open>disabled\<close> attribute is set.
\<close>

definition selectDate :: "date \<Rightarrow> datepicker \<Rightarrow> datepicker" where
  "selectDate d p =
     p\<lparr>selectedDate := Some d, isOpen := False, onChange_calls := onChange_calls p @ [Some d]\<rparr>"

definition onClick :: "day_button \<Rightarrow> datepicker \<Rightarrow> datepicker" where
  "onClick b p =
     (if \<not> isDisabled b
      then (if outside b
            then selectDate (btn_date b)
                   (p\<lparr>viewDate := mk_date (year (btn_date b)) (month (btn_date b)) 1\<rparr>)
            else selectDate (btn_date b) p)
      else p)"

definition click_day :: "day_button \<Rightarrow> datepicker \<Rightarrow> datepicker" where
  "click_day b p = (if attr_disabled b then p else onClick b p)"

text \<open>An example: November 2026 with a minimum in the afternoon of the 3rd, a maximum on the
  20th and the 11th disabled.\<close>

definition november :: datepicker where
  "november = \<lparr>minDate = Some \<lparr>year = 2026, month = 10, day = 3, time = 50400000\<rparr>,
     maxDate = Some (mk_date 2026 10 20),
     disabledDates = Some [\<lparr>year = 2026, month = 10, day = 11, time = 3600000\<rparr>],
     firstDayOfWeek = 0, isOpen = True, selectedDate = None,
     viewDate = mk_date 2026 10 3, onChange_calls = []\<rparr>"

section \<open>components/modal/modal.ts: openModal and closeModal\<close>

text \<open>
  The page as the modal code sees it: the backdrops attached to \<^verbatim>\<open>document.body\<close>, the
  body's \<^verbatim>\<open>overflow\<close> style, the elements carrying a closing class, the Escape listeners
  on the document (each by the backdrop of the modal whose \<^verbatim>\<open>handleClose\<close> it calls), the
  dialogs with a focus-trap listener, the focused element, the module variable
  \<^verbatim>\<open>activeModal\<close>, the pending timers with their due times, the clock, and the modals whose
  \<^verbatim>\<open>onClose\<close> prop was called. A modal takes three elements: backdrop, dialog and close
  button. A cleanup function is the data of its closure.
\<close>

type_synonym elem = nat

datatype cleanup_fn =
    RestoreOverflow string
  | RemoveEscapeListener elem
  | ReleaseFocusTrap elem "elem option"

record modal_handle =
  element :: elem
  cleanupFns :: "cleanup_fn list"

datatype timer = CloseModalTimer | HandleCloseTimer elem

record modal_props =
  title :: string
  closeOnEscape :: bool
  showCloseButton :: bool

record page =
  body_children :: "elem list"
  body_overflow :: string
  closing :: "elem list"
  escape_listeners :: "elem list"
  trap_listeners :: "elem list"
  activeElement :: "elem option"
  activeModal :: "modal_handle option"
  timers :: "(nat \<times> timer) list"
  now :: nat
  onClose_calls :: "elem list"
  next_elem :: elem

definition dialog_of :: "elem \<Rightarrow> elem" where
  "dialog_of backdrop = backdrop + 1"

definition close_button_of :: "elem \<Rightarrow> elem" where
  "close_button_of backdrop = backdrop + 2"

definition inside :: "elem \<Rightarrow> elem \<Rightarrow> bool" where
  "inside backdrop x = (backdrop \<le> x \<and> x < backdrop + 3)"

text \<open>\<^verbatim>\<open>setTimeout(cb, delay)\<close>, and the closing classes put on \<^verbatim>\<open>activeModal.element\<close> and
  its dialog.\<close>

definition setTimeout :: "timer \<Rightarrow> nat \<Rightarrow> page \<Rightarrow> page" where
  "setTimeout cb delay pg = pg\<lparr>timers := timers pg @ [(now pg + delay, cb)]\<rparr>"

definition start_closing :: "page \<Rightarrow> page" where
  "start_closing pg =
     (case activeModal pg of
        None \<Rightarrow> pg
      | Some m \<Rightarrow> pg\<lparr>closing := closing pg @ [element m, dialog_of (element m)]\<rparr>)"

text \<open>
  \<^verbatim>\<open>closeModal\<close> and the \<^verbatim>\<open>handleClose\<close> of a modal both schedule, 200 ms later, a callback
  that runs \<^verbatim>\<open>activeModal?.cleanup()\<close>: the cleanup of whichever modal is active then.
\<close>

definition closeModal :: "page \<Rightarrow> page" where
  "closeModal pg =
     (if activeModal pg \<noteq> None then setTimeout CloseModalTimer 200 (start_closing pg) else pg)"

definition handleClose :: "elem \<Rightarrow> page \<Rightarrow> page" where
  "handleClose owner pg =
     (if activeModal pg \<noteq> None then setTimeout (HandleCloseTimer owner) 200 (start_closing pg)
      else pg)"

text \<open>\<^verbatim>\<open>createFocusTrap\<close> (core/events.ts) remembers the focused element, focuses the first
  focusable descendant (the close button, when shown) and listens on the dialog.\<close>

definition createFocusTrap :: "elem \<Rightarrow> bool \<Rightarrow> page \<Rightarrow> cleanup_fn \<times> page" where
  "createFocusTrap backdrop has_button pg =
     (let previouslyFocused = activeElement pg;
          pg1 = (if has_button then pg\<lparr>activeElement := Some (close_button_of backdrop)\<rparr> else pg);
          pg2 = pg1\<lparr>trap_listeners := trap_listeners pg1 @ [dialog_of backdrop]\<rparr>
      in (ReleaseFocusTrap (dialog_of backdrop) previouslyFocused, pg2))"

definition openModal :: "modal_props \<Rightarrow> page \<Rightarrow> page" where
  "openModal props pg =
     (let pg0 = (if activeModal pg \<noteq> None then closeModal pg else pg);
          backdrop = next_elem pg0;
          pg1 = pg0\<lparr>next_elem := backdrop + 3, body_children := body_children pg0 @ [backdrop]\<rparr>;
          originalOverflow = body_overflow pg1;
          pg2 = pg1\<lparr>body_overflow := ''hidden''\<rparr>;
          fns1 = [RestoreOverflow originalOverflow];
          pg3 = (if closeOnEscape props
                 then pg2\<lparr>escape_listeners := escape_listeners pg2 @ [backdrop]\<rparr> else pg2);
          fns2 = (if closeOnEscape props then fns1 @ [RemoveEscapeListener backdrop] else fns1);
          ft = createFocusTrap backdrop (showCloseButton props) pg3;
          fns3 = fns2 @ [fst ft]
      in (snd ft)\<lparr>activeModal := Some \<lparr>element = backdrop, cleanupFns = fns3\<rparr>\<rparr>)"

text \<open>The master \<^verbatim>\<open>cleanup\<close>: every cleanup function, then the backdrop's removal (an
  element that loses its place in the document loses the focus), then
  \<^verbatim>\<open>activeModal = null\<close>.\<close>

fun run_cleanup_fn :: "cleanup_fn \<Rightarrow> page \<Rightarrow> page" where
  "run_cleanup_fn (RestoreOverflow v) pg = pg\<lparr>body_overflow := v\<rparr>"
| "run_cleanup_fn (RemoveEscapeListener l) pg =
     pg\<lparr>escape_listeners := removeAll l (escape_listeners pg)\<rparr>"
| "run_cleanup_fn (ReleaseFocusTrap d prev) pg =
     (let pg1 = pg\<lparr>trap_listeners := removeAll d (trap_listeners pg)\<rparr>
      in case prev of None \<Rightarrow> pg1 | Some e \<Rightarrow> pg1\<lparr>activeElement := Some e\<rparr>)"

definition remove_backdrop :: "elem \<Rightarrow> page \<Rightarrow> page" where
  "remove_backdrop backdrop pg =
     (if backdrop \<in> set (body_children pg)
      then pg\<lparr>body_children := removeAll backdrop (body_children pg),
              activeElement := (case activeElement pg of
                                  Some e \<Rightarrow> if inside backdrop e then None else Some e
                                | None \<Rightarrow> None)\<rparr>
      else pg)"

definition cleanup :: "modal_handle \<Rightarrow> page \<Rightarrow> page" where
  "cleanup m pg =
     (remove_backdrop (element m) (fold run_cleanup_fn (cleanupFns m) pg))\<lparr>activeModal := None\<rparr>"

text \<open>Time passing: the timers due run in the order they were set.\<close>

fun run_timer :: "timer \<Rightarrow> page \<Rightarrow> page" where
  "run_timer CloseModalTimer pg =
     (case activeModal pg of None \<Rightarrow> pg | Some m \<Rightarrow> cleanup m pg)"
| "run_timer (HandleCloseTimer owner) pg =
     (let pg1 = (case activeModal pg of None \<Rightarrow> pg | Some m \<Rightarrow> cleanup m pg)
      in pg1\<lparr>onClose_calls := onClose_calls pg1 @ [owner]\<rparr>)"

definition advance :: "nat \<Rightarrow> page \<Rightarrow> page" where
  "advance dt pg =
     (let t = now pg + dt;
          due = filter (\<lambda>e. fst e \<le> t) (timers pg);
          later = filter (\<lambda>e. \<not> fst e \<le> t) (timers pg)
      in fold (\<lambda>e. run_timer (snd e)) due (pg\<lparr>now := t, timers := later\<rparr>))"

definition press_escape :: "page \<Rightarrow> page" where
  "press_escape pg = fold handleClose (escape_listeners pg) pg"

definition isModalOpen :: "page \<Rightarrow> bool" where
  "isModalOpen pg = (activeModal pg \<noteq> None)"

text \<open>An example: a page whose focused element is 0, and two modals opened in a row, then
  200 ms passing.\<close>

definition empty_page :: page where
  "empty_page = \<lparr>body_children = [], body_overflow = '''', closing = [], escape_listeners = [],
     trap_listeners = [], activeElement = Some 0, activeModal = None, timers = [], now = 0,
     onClose_calls = [], next_elem = 1\<rparr>"

definition modal_A :: modal_props where
  "modal_A = \<lparr>title = ''A'', closeOnEscape = True, showCloseButton = True\<rparr>"

definition modal_B :: modal_props where
  "modal_B = \<lparr>title = ''B'', closeOnEscape = True, showCloseButton = True\<rparr>"

definition after_A :: page where
  "after_A = openModal modal_A empty_page"

definition after_A_B :: page where
  "after_A_B = openModal modal_B after_A"

definition after_A_B_timer :: page where
  "after_A_B_timer = advance 200 after_A_B"

chapter \<open>Properties\<close>

section \<open>createState: notification\<close>

subsection \<open>The effects of one callback\<close>

lemma run_actions_invoked:
  "run_actions as it = Inr it' \<Longrightarrow> invoked it' = invoked it"
  by (induction as it rule: run_actions.induct) (auto split: if_splits)

lemma run_actions_distinct:
  "run_actions as it = Inr it' \<Longrightarrow> distinct (visited it @ pending it)
   \<Longrightarrow> distinct (visited it' @ pending it')"
proof (induction as it rule: run_actions.induct)
  case (3 g as it)
  have "distinct (removeAll g (visited it) @ removeAll g (pending it))"
    using "3.prems"(2) by (auto simp: distinct_removeAll)
  then show ?case using 3 by simp
qed (auto split: if_splits)

lemma run_actions_keeps_pending:
  "run_actions as it = Inr it' \<Longrightarrow> Unsubscribe f \<notin> set as \<Longrightarrow> f \<in> set (pending it)
   \<Longrightarrow> f \<in> set (pending it')"
  by (induction as it rule: run_actions.induct) (auto split: if_splits)

lemma run_actions_keeps_visited:
  "run_actions as it = Inr it' \<Longrightarrow> Unsubscribe f \<notin> set as \<Longrightarrow> f \<in> set (visited it)
   \<Longrightarrow> f \<in> set (visited it')"
  by (induction as it rule: run_actions.induct) (auto split: if_splits)

lemma run_actions_no_throw:
  "Throw \<notin> set as \<Longrightarrow> \<exists>it'. run_actions as it = Inr it'"
  by (induction as it rule: run_actions.induct) auto

lemma work_removeAll: "work beh (removeAll g fs) \<le> work beh fs"
  by (induction fs) (auto simp: work_def)

lemma run_actions_work:
  "run_actions as it = Inr it' \<Longrightarrow> \<forall>g. Subscribe g \<in> set as \<longrightarrow> weight beh g = 1
   \<Longrightarrow> work beh (pending it') \<le> work beh (pending it) + length (filter is_subscribe as)"
proof (induction as it arbitrary: it' rule: run_actions.induct)
  case (1 it)
  then show ?case by simp
next
  case (2 g as it)
  let ?it1 = "if g \<in> set (visited it) \<or> g \<in> set (pending it) then it
        else it\<lparr>pending := pending it @ [g]\<rparr>"
  have r: "run_actions as ?it1 = Inr it'" using "2.prems"(1) by simp
  have w: "weight beh g = 1" using "2.prems"(2) by simp
  have "work beh (pending it') \<le> work beh (pending ?it1) + length (filter is_subscribe as)"
    using "2.IH"[OF r] "2.prems"(2) by simp
  moreover have "work beh (pending ?it1) \<le> work beh (pending it) + 1"
    using w by (simp add: work_def)
  ultimately show ?case by simp
next
  case (3 g as it)
  let ?it1 = "it\<lparr>visited := removeAll g (visited it), pending := removeAll g (pending it)\<rparr>"
  have r: "run_actions as ?it1 = Inr it'" using "3.prems"(1) by simp
  have "work beh (pending it') \<le> work beh (pending ?it1) + length (filter is_subscribe as)"
    using "3.IH"[OF r] "3.prems"(2) by simp
  moreover have "work beh (pending ?it1) \<le> work beh (pending it)"
    by (simp add: work_removeAll)
  ultimately show ?case by simp
next
  case (4 as it)
  then show ?case by simp
qed

subsection \<open>The notification loop\<close>

text \<open>The loop ends within the bound when no subscribed callback subscribes in turn: each
  iteration takes a callback's weight off the pending work and adds at most one per
  \<^verbatim>\<open>subscribe\<close> call it makes.\<close>

lemma notify_loop_terminates:
  "no_chained_subscribe beh \<Longrightarrow> work beh (pending it) < n
   \<Longrightarrow> \<exists>r. notify_loop n beh it = Some r"
proof (induction n arbitrary: it)
  case 0
  then show ?case by simp
next
  case (Suc n)
  show ?case
  proof (cases "pending it")
    case Nil
    then show ?thesis by simp
  next
    case (Cons f rest)
    let ?it1 = "it\<lparr>visited := visited it @ [f], pending := rest, invoked := invoked it @ [f]\<rparr>"
    show ?thesis
    proof (cases "run_actions (beh f) ?it1")
      case (Inl a)
      then show ?thesis using Cons by simp
    next
      case (Inr it')
      have tgt: "\<forall>g. Subscribe g \<in> set (beh f) \<longrightarrow> weight beh g = 1"
        using Suc.prems(1) by (auto simp: no_chained_subscribe_def weight_def)
      have "work beh (pending it') \<le> work beh rest + length (filter is_subscribe (beh f))"
        using run_actions_work[OF Inr tgt] by simp
      moreover have "work beh (pending it) = weight beh f + work beh rest"
        using Cons by (simp add: work_def)
      ultimately have "work beh (pending it') < n"
        using Suc.prems(2) by (simp add: weight_def)
      from Suc.IH[OF Suc.prems(1) this] show ?thesis using Cons Inr by simp
    qed
  qed
qed

lemma notify_loop_mono:
  "notify_loop n beh it = Some r \<Longrightarrow> notify_loop (n + k) beh it = Some r"
proof (induction n arbitrary: it)
  case 0
  then show ?case by simp
next
  case (Suc n)
  then show ?case by (auto split: list.splits sum.splits)
qed

lemma notify_loop_no_throw:
  "\<forall>f. Throw \<notin> set (beh f) \<Longrightarrow> notify_loop n beh it \<noteq> Some (Inl x)"
proof (induction n arbitrary: it)
  case 0
  then show ?case by simp
next
  case (Suc n)
  show ?case
  proof (cases "pending it")
    case Nil
    then show ?thesis by simp
  next
    case (Cons g rest)
    let ?it1 = "it\<lparr>visited := visited it @ [g], pending := rest, invoked := invoked it @ [g]\<rparr>"
    obtain it2 where "run_actions (beh g) ?it1 = Inr it2"
      using run_actions_no_throw[of "beh g" ?it1] Suc.prems by blast
    then show ?thesis using Cons Suc.IH[OF Suc.prems] by simp
  qed
qed

text \<open>A finished loop has invoked once every member that was pending at its start, and
  has not invoked again any member already visited, unless a callback it ran has
  unsubscribed that member.\<close>

lemma notify_loop_once:
  "notify_loop n beh it = Some (Inr it') \<Longrightarrow> distinct (visited it @ pending it) \<Longrightarrow>
   \<exists>new. invoked it' = invoked it @ new \<and> pending it' = [] \<and> distinct (visited it') \<and>
     (\<forall>f. (\<forall>g\<in>set new. Unsubscribe f \<notin> set (beh g)) \<longrightarrow>
        (f \<in> set (pending it) \<longrightarrow> count_list new f = 1 \<and> f \<in> set (visited it')) \<and>
        (f \<in> set (visited it) \<longrightarrow> count_list new f = 0 \<and> f \<in> set (visited it')))"
proof (induction n arbitrary: it)
  case 0
  then show ?case by simp
next
  case (Suc n)
  show ?case
  proof (cases "pending it")
    case Nil
    then have "it' = it" using Suc.prems(1) by simp
    then show ?thesis using Nil Suc.prems(2) by simp
  next
    case (Cons g rest)
    let ?it1 = "it\<lparr>visited := visited it @ [g], pending := rest, invoked := invoked it @ [g]\<rparr>"
    obtain it2 where r2: "run_actions (beh g) ?it1 = Inr it2"
      and l2: "notify_loop n beh it2 = Some (Inr it')"
      using Suc.prems(1) Cons by (auto split: sum.splits)
    have d1: "distinct (visited ?it1 @ pending ?it1)"
      using Suc.prems(2) Cons by auto
    have d2: "distinct (visited it2 @ pending it2)"
      using run_actions_distinct[OF r2 d1] .
    have i2: "invoked it2 = invoked it @ [g]"
      using run_actions_invoked[OF r2] by simp
    from Suc.IH[OF l2 d2] obtain new2 where
      n1: "invoked it' = invoked it2 @ new2" and n2: "pending it' = []"
      and n3: "distinct (visited it')"
      and n4: "\<forall>f. (\<forall>h\<in>set new2. Unsubscribe f \<notin> set (beh h)) \<longrightarrow>
        (f \<in> set (pending it2) \<longrightarrow> count_list new2 f = 1 \<and> f \<in> set (visited it')) \<and>
        (f \<in> set (visited it2) \<longrightarrow> count_list new2 f = 0 \<and> f \<in> set (visited it'))"
      by blast
    have "invoked it' = invoked it @ (g # new2)" using n1 i2 by simp
    moreover have "\<forall>f. (\<forall>h\<in>set (g # new2). Unsubscribe f \<notin> set (beh h)) \<longrightarrow>
        (f \<in> set (pending it) \<longrightarrow> count_list (g # new2) f = 1 \<and> f \<in> set (visited it')) \<and>
        (f \<in> set (visited it) \<longrightarrow> count_list (g # new2) f = 0 \<and> f \<in> set (visited it'))"
    proof (intro allI impI conjI)
      fix f assume a: "\<forall>h\<in>set (g # new2). Unsubscribe f \<notin> set (beh h)"
      then have ug: "Unsubscribe f \<notin> set (beh g)"
        and u2: "\<forall>h\<in>set new2. Unsubscribe f \<notin> set (beh h)" by auto
      have ih: "(f \<in> set (pending it2) \<longrightarrow> count_list new2 f = 1 \<and> f \<in> set (visited it')) \<and>
        (f \<in> set (visited it2) \<longrightarrow> count_list new2 f = 0 \<and> f \<in> set (visited it'))"
        using n4 u2 by blast
      { assume p: "f \<in> set (pending it)"
        have here: "f = g \<Longrightarrow> f \<in> set (visited it2)"
          using run_actions_keeps_visited[OF r2 ug] by simp
        have ahead: "f \<noteq> g \<Longrightarrow> f \<in> set (pending it2)"
          using run_actions_keeps_pending[OF r2 ug] p Cons by simp
        show "count_list (g # new2) f = 1"
          using ih here ahead by (cases "f = g") simp_all
        show "f \<in> set (visited it')"
          using ih here ahead by (cases "f = g") simp_all }
      { assume v: "f \<in> set (visited it)"
        then have ne: "f \<noteq> g" using Suc.prems(2) Cons by auto
        have "f \<in> set (visited ?it1)" using v by simp
        then have v2: "f \<in> set (visited it2)" using run_actions_keeps_visited[OF r2 ug] by blast
        show "count_list (g # new2) f = 0" using ih v2 ne by simp
        show "f \<in> set (visited it')" using ih v2 by simp }
    qed
    ultimately show ?thesis using n2 n3 by blast
  qed
qed

subsection \<open>set\<close>

lemma distinct_subscribe:
  "distinct (subscribers c) \<Longrightarrow> distinct (subscribers (subscribe fn c))"
  by (simp add: subscribe_def)

lemma subscribe_member: "fn \<in> set (subscribers (subscribe fn c))"
  by (simp add: subscribe_def)

lemma subscribe_cur: "cur (subscribe fn c) = cur c"
  by (simp add: subscribe_def)

lemma notified_append:
  "calls c' = calls c @ map (\<lambda>f. (f, v, p)) new \<Longrightarrow> notified c c' = new"
  by (simp add: notified_def comp_def)

lemma set_state_unchanged:
  "\<not> strict_neq (new_value arg (cur c)) (cur c) \<Longrightarrow>
   set_state n beh arg c = Some (Inr (c\<lparr>cur := new_value arg (cur c)\<rparr>))"
  by (simp add: set_state_def Let_def)

lemma set_state_notifies:
  assumes d: "distinct (subscribers c)"
    and v: "v = new_value arg (cur c)"
    and neq: "strict_neq v (cur c)"
    and nt: "\<forall>f. Throw \<notin> set (beh f v (cur c))"
    and nc: "no_chained_subscribe (\<lambda>f. beh f v (cur c))"
  shows "\<exists>c' new. (\<forall>n \<ge> fuel_bound (\<lambda>f. beh f v (cur c)) (subscribers c).
            set_state n beh arg c = Some (Inr c')) \<and>
          cur c' = v \<and> distinct (subscribers c') \<and>
          calls c' = calls c @ map (\<lambda>f. (f, v, cur c)) new \<and>
          (\<forall>f. (\<forall>g\<in>set new. Unsubscribe f \<notin> set (beh g v (cur c))) \<longrightarrow>
               f \<in> set (subscribers c) \<longrightarrow>
               count_list new f = 1 \<and> f \<in> set (subscribers c'))"
proof -
  let ?b = "\<lambda>f. beh f v (cur c)"
  let ?it = "\<lparr>visited = [], pending = subscribers c, invoked = []\<rparr>"
  let ?n0 = "fuel_bound ?b (subscribers c)"
  have "work ?b (pending ?it) < ?n0" by (simp add: fuel_bound_def)
  from notify_loop_terminates[OF nc this] obtain r where r: "notify_loop ?n0 ?b ?it = Some r"
    by blast
  obtain it' where it': "r = Inr it'"
    using notify_loop_no_throw[OF nt, of ?n0 ?it] r by (cases r) auto
  have dd: "distinct (visited ?it @ pending ?it)" using d by simp
  from notify_loop_once[OF r[unfolded it'] dd] obtain new where
    n1: "invoked it' = new" and n2: "pending it' = []" and n3: "distinct (visited it')"
    and n4: "\<forall>f. (\<forall>g\<in>set new. Unsubscribe f \<notin> set (?b g)) \<longrightarrow>
        (f \<in> set (subscribers c) \<longrightarrow> count_list new f = 1 \<and> f \<in> set (visited it'))"
    by auto
  let ?c' = "finish (c\<lparr>cur := v\<rparr>) v (cur c) it'"
  have run: "\<forall>n \<ge> ?n0. set_state n beh arg c = Some (Inr ?c')"
  proof (intro allI impI)
    fix n assume "?n0 \<le> n"
    then obtain k where "n = ?n0 + k" using le_Suc_ex by blast
    then have "notify_loop n ?b ?it = Some (Inr it')"
      using notify_loop_mono[OF r[unfolded it']] by simp
    then show "set_state n beh arg c = Some (Inr ?c')"
      using neq v by (simp add: set_state_def Let_def)
  qed
  have "cur ?c' = v" by (simp add: finish_def)
  moreover have "distinct (subscribers ?c')" using n2 n3 by (simp add: finish_def)
  moreover have "calls ?c' = calls c @ map (\<lambda>f. (f, v, cur c)) new"
    using n1 by (simp add: finish_def)
  moreover have "\<forall>f. (\<forall>g\<in>set new. Unsubscribe f \<notin> set (beh g v (cur c))) \<longrightarrow>
               f \<in> set (subscribers c) \<longrightarrow>
               count_list new f = 1 \<and> f \<in> set (subscribers ?c')"
    using n4 n2 by (simp add: finish_def)
  ultimately show ?thesis using run by blast
qed


text \<open>
  Claim C3, as the code has it, for subscribers whose callbacks only subscribe and
  unsubscribe callbacks of the state: none calls \<^verbatim>\<open>set\<close> on it and none throws. When
  moreover no callback unsubscribes \<open>fn\<close> and no callback subscribed by a running callback
  subscribes in turn, then for a value \<open>x\<close> other than NaN, after \<^verbatim>\<open>subscribe(fn)\<close> the
  calls \<^verbatim>\<open>set(x); set(x)\<close> return and invoke \<open>fn\<close> once when \<open>x\<close> is \<^verbatim>\<open>!==\<close> the value held
  before, and not at all when it is equal: a \<^verbatim>\<open>set\<close> notifies only on a change, so the
  second \<^verbatim>\<open>set(x)\<close> never does.
\<close>

theorem set_same_value_twice_notifies_once:
  assumes d: "distinct (subscribers c0)"
    and x: "x \<noteq> JNaN"
    and nt: "\<forall>f. Throw \<notin> set (beh f x (cur c0))"
    and nc: "no_chained_subscribe (\<lambda>f. beh f x (cur c0))"
    and nu: "\<forall>f. Unsubscribe fn \<notin> set (beh f x (cur c0))"
  shows "\<exists>c'. (\<forall>n \<ge> fuel_bound (\<lambda>f. beh f x (cur c0)) (subscribers (subscribe fn c0)).
                  set_twice n beh x (subscribe fn c0) = Some (Inr c')) \<and>
               cur c' = x \<and>
               count_list (notified (subscribe fn c0) c') fn =
                 (if strict_neq x (cur c0) then 1 else 0)"
proof -
  let ?c = "subscribe fn c0"
  have xx: "\<not> strict_neq x x" using x by (simp add: strict_neq_def)
  show ?thesis
  proof (cases "strict_neq x (cur c0)")
    case True
    have v: "x = new_value (Value x) (cur ?c)" by (simp add: new_value_def)
    from set_state_notifies[where c="?c" and arg="Value x" and beh=beh and v=x]
      distinct_subscribe[OF d] v
    obtain c1 new where
      run: "\<forall>n \<ge> fuel_bound (\<lambda>f. beh f x (cur c0)) (subscribers ?c).
              set_state n beh (Value x) ?c = Some (Inr c1)"
      and c1: "cur c1 = x"
      and cs: "calls c1 = calls ?c @ map (\<lambda>f. (f, x, cur c0)) new"
      and once: "\<forall>f. (\<forall>g\<in>set new. Unsubscribe f \<notin> set (beh g x (cur c0))) \<longrightarrow>
               f \<in> set (subscribers ?c) \<longrightarrow> count_list new f = 1 \<and> f \<in> set (subscribers c1)"
      using True nt nc by (auto simp: subscribe_cur)
    have second: "\<And>n. set_state n beh (Value x) c1 = Some (Inr (c1\<lparr>cur := x\<rparr>))"
      using set_state_unchanged[of "Value x" c1] xx c1 by (simp add: new_value_def)
    have "\<forall>n \<ge> fuel_bound (\<lambda>f. beh f x (cur c0)) (subscribers ?c).
            set_twice n beh x ?c = Some (Inr (c1\<lparr>cur := x\<rparr>))"
      using run second by (simp add: set_twice_def)
    moreover have "notified ?c (c1\<lparr>cur := x\<rparr>) = new"
      using notified_append[of "c1\<lparr>cur := x\<rparr>" ?c x "cur c0" new] cs by simp
    moreover have "count_list new fn = 1"
      using once nu subscribe_member[of fn c0] by blast
    ultimately show ?thesis using True by auto
  next
    case False
    have first: "\<And>n. set_state n beh (Value x) ?c = Some (Inr (?c\<lparr>cur := x\<rparr>))"
      using set_state_unchanged[of "Value x" ?c] False by (simp add: new_value_def subscribe_cur)
    have second: "\<And>n. set_state n beh (Value x) (?c\<lparr>cur := x\<rparr>) = Some (Inr (?c\<lparr>cur := x\<rparr>))"
      using set_state_unchanged[of "Value x" "?c\<lparr>cur := x\<rparr>"] xx by (simp add: new_value_def)
    have "\<And>n. set_twice n beh x ?c = Some (Inr (?c\<lparr>cur := x\<rparr>))"
      using first second by (simp add: set_twice_def)
    moreover have "notified ?c (?c\<lparr>cur := x\<rparr>) = []" by (simp add: notified_def)
    ultimately show ?thesis using False by auto
  qed
qed

text \<open>The theorem at a state holding 0 with two earlier subscribers, for \<open>x = 7\<close>: the
  hypotheses hold there, and callback 9 is invoked once.\<close>

theorem set_same_value_twice_notifies_once_witness:
  "distinct (subscribers (createState (JNum 0)\<lparr>subscribers := [1, 2]\<rparr>)) \<and>
   JNum 7 \<noteq> JNaN \<and>
   (\<forall>f. Throw \<notin> set (observers f (JNum 7) (cur (createState (JNum 0)\<lparr>subscribers := [1, 2]\<rparr>)))) \<and>
   no_chained_subscribe
     (\<lambda>f. observers f (JNum 7) (cur (createState (JNum 0)\<lparr>subscribers := [1, 2]\<rparr>))) \<and>
   (\<forall>f. Unsubscribe 9 \<notin> set (observers f (JNum 7) (cur (createState (JNum 0)\<lparr>subscribers := [1, 2]\<rparr>)))) \<and>
   (\<exists>c'. set_twice 4 observers (JNum 7)
            (subscribe 9 (createState (JNum 0)\<lparr>subscribers := [1, 2]\<rparr>)) = Some (Inr c') \<and>
          cur c' = JNum 7 \<and>
          count_list (notified (subscribe 9 (createState (JNum 0)\<lparr>subscribers := [1, 2]\<rparr>)) c') 9 = 1)"
proof -
  let ?c0 = "createState (JNum 0)\<lparr>subscribers := [1, 2]\<rparr>"
  have h1: "distinct (subscribers ?c0)" by (simp add: createState_def)
  have h2: "JNum 7 \<noteq> JNaN" by simp
  have h3: "\<forall>f. Throw \<notin> set (observers f (JNum 7) (cur ?c0))" by (simp add: observers_def)
  have h4: "no_chained_subscribe (\<lambda>f. observers f (JNum 7) (cur ?c0))"
    by (simp add: no_chained_subscribe_def observers_def)
  have h5: "\<forall>f. Unsubscribe 9 \<notin> set (observers f (JNum 7) (cur ?c0))" by (simp add: observers_def)
  have fb: "fuel_bound (\<lambda>f. observers f (JNum 7) (cur ?c0)) (subscribers (subscribe 9 ?c0)) = 4"
    by (simp add: fuel_bound_def work_def weight_def observers_def subscribe_def createState_def)
  have ne: "strict_neq (JNum 7) (cur ?c0)" by (simp add: strict_neq_def createState_def)
  from set_same_value_twice_notifies_once[where beh=observers and fn=9, OF h1 h2 h3 h4 h5]
  obtain c' where
    "\<forall>n \<ge> fuel_bound (\<lambda>f. observers f (JNum 7) (cur ?c0)) (subscribers (subscribe 9 ?c0)).
        set_twice n observers (JNum 7) (subscribe 9 ?c0) = Some (Inr c')"
    and "cur c' = JNum 7"
    and "count_list (notified (subscribe 9 ?c0) c') 9 = (if strict_neq (JNum 7) (cur ?c0) then 1 else 0)"
    by blast
  then have "set_twice 4 observers (JNum 7) (subscribe 9 ?c0) = Some (Inr c') \<and>
          cur c' = JNum 7 \<and> count_list (notified (subscribe 9 ?c0) c') 9 = 1"
    using fb ne by simp
  then show ?thesis using h1 h2 h3 h4 h5 by blast
qed

text \<open>Claim C3 as stated fails for \<open>x\<close> equal to the value held: on a state created with 0,
  after \<^verbatim>\<open>subscribe(fn)\<close> the calls \<^verbatim>\<open>set(0); set(0)\<close> return without any invocation.\<close>

theorem set_initial_value_twice_never_notifies:
  "set_twice 1 observers (JNum 0) (subscribe 1 (createState (JNum 0)))
     = Some (Inr \<lparr>cur = JNum 0, subscribers = [1], calls = []\<rparr>)"
  by (simp add: set_twice_def set_state_def new_value_def strict_neq_def subscribe_def
      createState_def)

text \<open>NaN is unequal to itself, so \<^verbatim>\<open>set(NaN); set(NaN)\<close> notifies twice; this is why the
  theorem above leaves NaN out.\<close>

lemma set_NaN_twice_notifies_twice:
  "set_twice 2 observers JNaN (subscribe 1 (createState (JNum 0)))
     = Some (Inr \<lparr>cur = JNaN, subscribers = [1],
                   calls = [(1, JNaN, JNum 0), (1, JNaN, JNaN)]\<rparr>)"
  by (simp add: set_twice_def set_state_def new_value_def strict_neq_def subscribe_def
      createState_def observers_def finish_def numeral_2_eq_2)




section \<open>Computed state inside batch\<close>

lemma on_dependency_change_depth:
  "on_dependency_change compute (w\<lparr>batchDepth := d\<rparr>)
     = (on_dependency_change compute w)\<lparr>batchDepth := d\<rparr>"
  by (simp add: on_dependency_change_def getValue_def Let_def)

lemma run_listener_depth:
  "run_listener compute v p l (w\<lparr>batchDepth := d\<rparr>)
     = (run_listener compute v p l w)\<lparr>batchDepth := d\<rparr>"
  by (cases l) (simp_all add: on_dependency_change_depth)

lemma fold_run_listener_depth:
  "fold (run_listener compute v p) ls (w\<lparr>batchDepth := d\<rparr>)
     = (fold (run_listener compute v p) ls w)\<lparr>batchDepth := d\<rparr>"
  by (induction ls arbitrary: w) (simp_all add: run_listener_depth)

lemma set_dependency_depth:
  "set_dependency compute i a (w\<lparr>batchDepth := d\<rparr>)
     = (set_dependency compute i a w)\<lparr>batchDepth := d\<rparr>"
proof -
  let ?s = "dependencies_c w ! i"
  let ?v = "new_value a (src_cur ?s)"
  let ?ds = "(dependencies_c w)[i := ?s\<lparr>src_cur := ?v\<rparr>]"
  have sw: "w\<lparr>batchDepth := d, dependencies_c := ?ds\<rparr> = (w\<lparr>dependencies_c := ?ds\<rparr>)\<lparr>batchDepth := d\<rparr>"
    by simp
  have f: "fold (run_listener compute ?v (src_cur ?s)) (src_subscribers ?s)
             (w\<lparr>batchDepth := d, dependencies_c := ?ds\<rparr>)
      = (fold (run_listener compute ?v (src_cur ?s)) (src_subscribers ?s)
           (w\<lparr>dependencies_c := ?ds\<rparr>))\<lparr>batchDepth := d\<rparr>"
    unfolding sw by (rule fold_run_listener_depth)
  show ?thesis
    by (simp add: set_dependency_def Let_def f)
qed

lemma on_dependency_change_frame:
  "batchDepth (on_dependency_change compute w) = batchDepth w"
  "batchQueue (on_dependency_change compute w) = batchQueue w"
  by (simp_all add: on_dependency_change_def Let_def)

lemma fold_run_listener_frame:
  "batchDepth (fold (run_listener compute v p) ls w) = batchDepth w \<and>
   batchQueue (fold (run_listener compute v p) ls w) = batchQueue w"
proof (induction ls arbitrary: w)
  case Nil
  then show ?case by simp
next
  case (Cons l ls)
  then show ?case by (cases l) (simp_all add: on_dependency_change_frame)
qed

lemma set_dependency_frame:
  "batchDepth (set_dependency compute i a w) = batchDepth w"
  "batchQueue (set_dependency compute i a w) = batchQueue w"
  by (simp_all add: set_dependency_def Let_def fold_run_listener_frame)

lemma exec_all_sets_depth:
  "list_all is_set body \<Longrightarrow>
   exec_all compute body (w\<lparr>batchDepth := d\<rparr>) = (exec_all compute body w)\<lparr>batchDepth := d\<rparr>"
proof (induction body arbitrary: w)
  case Nil
  then show ?case by simp
next
  case (Cons st body)
  then show ?case by (cases st) (simp_all add: set_dependency_depth)
qed

lemma exec_all_sets_frame:
  "list_all is_set body \<Longrightarrow>
   batchDepth (exec_all compute body w) = batchDepth w \<and>
   batchQueue (exec_all compute body w) = batchQueue w"
proof (induction body arbitrary: w)
  case Nil
  then show ?case by simp
next
  case (Cons st body)
  then show ?case by (cases st) (simp_all add: set_dependency_frame)
qed

text \<open>A \<^verbatim>\<open>batch\<close> whose body only sets states does what its body does outside a batch:
  every notification is made at once, none is deferred.\<close>

lemma batch_of_sets_is_transparent:
  assumes "list_all is_set body" and "batchDepth w = 0" and "batchQueue w = []"
  shows "exec compute (Batch body) w = exec_all compute body w"
proof -
  let ?w' = "exec_all compute body w"
  have fr: "batchDepth ?w' = 0" "batchQueue ?w' = []"
    using exec_all_sets_frame[OF assms(1), where compute=compute and w=w] assms(2,3) by simp_all
  have "exec_all compute body (batch_enter w) = ?w'\<lparr>batchDepth := 1\<rparr>"
    using exec_all_sets_depth[OF assms(1), where compute=compute and w=w and d=1] assms(2) by (simp add: batch_enter_def)
  then have "exec compute (Batch body) w = batch_leave compute (?w'\<lparr>batchDepth := 1\<rparr>)"
    by simp
  also have "\<dots> = ?w'\<lparr>batchDepth := 0, batchQueue := []\<rparr>"
    using fr by (simp add: batch_leave_def Let_def)
  also have "\<dots> = ?w'" using fr by simp
  finally show ?thesis .
qed

text \<open>
  Claim C1 on the code. After \<^verbatim>\<open>a.set(2); b.set(3)\<close> the computed value is 5, inside
  \<^verbatim>\<open>batch\<close> as outside. With both calls in one \<^verbatim>\<open>batch\<close> the subscriber of the computed state
  is invoked twice, first with the intermediate value 2 and then with 5: \<^verbatim>\<open>set\<close> notifies at
  once and does not consult the batch.
\<close>

theorem batch_notifies_per_dependency_change:
  "cachedValue (exec_all sum2 [SetDep 0 (Value (JNum 2)), SetDep 1 (Value (JNum 3))] sum_of_two)
     = JNum 5 \<and>
   cachedValue (exec sum2 (Batch [SetDep 0 (Value (JNum 2)), SetDep 1 (Value (JNum 3))]) sum_of_two)
     = JNum 5 \<and>
   calls_c (exec sum2 (Batch [SetDep 0 (Value (JNum 2)), SetDep 1 (Value (JNum 3))]) sum_of_two)
     = [(7, JNum 2, JNum 0), (7, JNum 5, JNum 2)]"
  by (simp add: sum_of_two_def subscribe_c_def createComputed_def sum2_def js_add_def
      set_dependency_def on_dependency_change_def getValue_def new_value_def strict_neq_def
      batch_enter_def batch_leave_def Let_def)

section \<open>Plugins: install and uninstall\<close>

lemma map_get_map_set: "map_get k (map_set k v m) = Some v"
  by (induction m) (auto simp: map_get_def)

lemma map_has_map_delete: "\<not> map_has k (map_delete k m)"
  by (induction m) (auto simp: map_has_def map_delete_def)

lemma map_of_map_delete: "map_of (map_delete k m) k' = (if k' = k then None else map_of m k')"
  by (induction m) (auto simp: map_delete_def)

lemma map_of_fold_map_delete:
  "map_of (fold map_delete ks m) k' = (if k' \<in> set ks then None else map_of m k')"
  by (induction ks arbitrary: m) (auto simp: map_of_map_delete)

lemma register_provide_frame:
  "state_plugins (register_provide n kv m) = state_plugins m"
  "hookSubscribers (register_provide n kv m) = hookSubscribers m"
  "hook_calls (register_provide n kv m) = hook_calls m"
  by (simp_all add: register_provide_def Let_def)

lemma fold_register_provide_frame:
  "state_plugins (fold (register_provide n) kvs m) = state_plugins m \<and>
   hookSubscribers (fold (register_provide n) kvs m) = hookSubscribers m \<and>
   hook_calls (fold (register_provide n) kvs m) = hook_calls m"
  by (induction kvs arbitrary: m) (simp_all add: register_provide_frame)

lemma register_provides_frame:
  "state_plugins (register_provides p m) = state_plugins m"
  "hookSubscribers (register_provides p m) = hookSubscribers m"
  "hook_calls (register_provides p m) = hook_calls m"
  by (simp_all add: register_provides_def fold_register_provide_frame split: option.splits)

lemma call_install_frame:
  "state_plugins (snd (call_install env p m)) = state_plugins m"
  "hookSubscribers (snd (call_install env p m)) = hookSubscribers m"
  "state_provides (snd (call_install env p m)) = state_provides m"
  by (simp_all add: call_install_def Let_def split: option.splits)

lemma use_registers:
  assumes "\<not> map_has (name p) (state_plugins m)" and "missing_dependency p m = None"
  shows "state_plugins (snd (use env p m)) = map_set (name p) p (state_plugins m)"
    and "hookSubscribers (snd (use env p m)) = register_hooks (hooks p) (hookSubscribers m)"
proof -
  let ?m3 = "register_provides p
      (m\<lparr>state_plugins := map_set (name p) p (state_plugins m),
         hookSubscribers := register_hooks (hooks p) (hookSubscribers m)\<rparr>)"
  have u: "snd (use env p m) =
      (case call_install env p ?m3 of
         (Inl e, m4) \<Rightarrow> m4
       | (Inr u, m4) \<Rightarrow> m4\<lparr>console := console m4 @ [LogInstalled (name p) (version p)]\<rparr>)"
    using assms by (simp add: use_def Let_def split: prod.splits sum.splits)
  obtain r m4 where c: "call_install env p ?m3 = (r, m4)" by (cases "call_install env p ?m3")
  have p4: "state_plugins m4 = state_plugins ?m3" and h4: "hookSubscribers m4 = hookSubscribers ?m3"
    using call_install_frame(1,2)[of env p ?m3] c by simp_all
  show "state_plugins (snd (use env p m)) = map_set (name p) p (state_plugins m)"
    using u c p4 by (cases r) (simp_all add: register_provides_frame)
  show "hookSubscribers (snd (use env p m)) = register_hooks (hooks p) (hookSubscribers m)"
    using u c h4 by (cases r) (simp_all add: register_provides_frame)
qed

lemma uninstall_hooks: "hookSubscribers (snd (uninstall n m)) = hookSubscribers m"
  by (simp add: uninstall_def Let_def split: option.splits)

lemma uninstall_installed:
  assumes "map_get n (state_plugins m) = Some p"
  shows "fst (uninstall n m)"
    and "\<not> map_has n (state_plugins (snd (uninstall n m)))"
    and "provides p = Some kvs \<Longrightarrow> k \<in> fst ` set kvs \<Longrightarrow>
         map_get k (state_provides (snd (uninstall n m))) = None"
  using assms
  by (simp_all add: uninstall_def Let_def map_has_map_delete map_get_def map_of_fold_map_delete
      split: option.splits)

lemma hook_calls_fold_call_hook:
  "hook_calls (fold (call_hook env kind args) hs m) = hook_calls m @ map (\<lambda>h. (h, args)) hs"
  by (induction hs arbitrary: m) (simp_all add: call_hook_def Let_def)

lemma invoked_by_trigger:
  "invoked_by m (triggerMount env el m) = subs_onMount (hookSubscribers m)"
  "invoked_by m (triggerUnmount env el m) = subs_onUnmount (hookSubscribers m)"
  "invoked_by m (triggerAfterStateUpdate env v m) = subs_afterStateUpdate (hookSubscribers m)"
  by (simp_all add: invoked_by_def triggerMount_def triggerUnmount_def
      triggerAfterStateUpdate_def hook_calls_fold_call_hook comp_def)

lemma fold_before_step_calls:
  "map fst (hook_calls (snd (fold (before_step env old) hs rm)))
     = map fst (hook_calls (snd rm)) @ hs"
  by (induction hs arbitrary: rm) (simp_all add: before_step_def Let_def split: option.splits)

lemma invoked_by_before:
  "invoked_by m (snd (applyBeforeStateUpdate env old new m))
     = subs_beforeStateUpdate (hookSubscribers m)"
proof -
  have "map fst (hook_calls (snd (applyBeforeStateUpdate env old new m)))
      = map fst (hook_calls m) @ subs_beforeStateUpdate (hookSubscribers m)"
    by (simp add: applyBeforeStateUpdate_def fold_before_step_calls)
  then show ?thesis
    by (simp add: invoked_by_def drop_map[symmetric])
qed

lemma push_hook_member: "h = Some f \<Longrightarrow> f \<in> set (push_hook h hs)"
  by (simp add: push_hook_def)

text \<open>
  Claim C10. Let plugin \<open>p\<close> declare hooks, its name not be installed and its
  dependencies be installed, so that \<^verbatim>\<open>use(p)\<close> registers it. After \<^verbatim>\<open>use(p)\<close> and
  \<^verbatim>\<open>uninstall(p.name)\<close> the call has returned \<^verbatim>\<open>true\<close>, the hook subscriber lists are
  those left by \<^verbatim>\<open>use(p)\<close>, the plugin entry and the values it provides are gone, and
  each of the four hooks of \<open>p\<close> is still invoked by its trigger.
\<close>

theorem uninstall_keeps_hook_subscribers:
  assumes fresh: "\<not> hasPlugin (name p) m"
    and deps: "missing_dependency p m = None"
    and hk: "hooks p = Some h"
  shows "fst (uninstall (name p) (snd (use env p m))) \<and>
         hookSubscribers (snd (uninstall (name p) (snd (use env p m))))
           = hookSubscribers (snd (use env p m)) \<and>
         \<not> hasPlugin (name p) (snd (uninstall (name p) (snd (use env p m)))) \<and>
         (\<forall>kvs. provides p = Some kvs \<longrightarrow>
            (\<forall>k \<in> fst ` set kvs. inject k (snd (uninstall (name p) (snd (use env p m)))) = None)) \<and>
         (\<forall>f. onMount h = Some f \<longrightarrow>
            f \<in> set (invoked_by (snd (uninstall (name p) (snd (use env p m))))
                  (triggerMount env el (snd (uninstall (name p) (snd (use env p m))))))) \<and>
         (\<forall>f. onUnmount h = Some f \<longrightarrow>
            f \<in> set (invoked_by (snd (uninstall (name p) (snd (use env p m))))
                  (triggerUnmount env el (snd (uninstall (name p) (snd (use env p m))))))) \<and>
         (\<forall>f. beforeStateUpdate h = Some f \<longrightarrow>
            f \<in> set (invoked_by (snd (uninstall (name p) (snd (use env p m))))
                  (snd (applyBeforeStateUpdate env old new
                     (snd (uninstall (name p) (snd (use env p m)))))))) \<and>
         (\<forall>f. afterStateUpdate h = Some f \<longrightarrow>
            f \<in> set (invoked_by (snd (uninstall (name p) (snd (use env p m))))
                  (triggerAfterStateUpdate env v (snd (uninstall (name p) (snd (use env p m)))))))"
proof -
  let ?m1 = "snd (use env p m)"
  let ?m2 = "snd (uninstall (name p) ?m1)"
  have f: "\<not> map_has (name p) (state_plugins m)" using fresh by (simp add: hasPlugin_def)
  have got: "map_get (name p) (state_plugins ?m1) = Some p"
    using use_registers(1)[OF f deps] by (simp add: map_get_map_set)
  have h1: "hookSubscribers ?m1 = register_hooks (Some h) (hookSubscribers m)"
    using use_registers(2)[OF f deps] hk by simp
  have h2: "hookSubscribers ?m2 = hookSubscribers ?m1" by (rule uninstall_hooks)
  have a: "fst (uninstall (name p) ?m1)" using uninstall_installed(1)[OF got] .
  have b: "\<not> hasPlugin (name p) ?m2"
    using uninstall_installed(2)[OF got] by (simp add: hasPlugin_def)
  have c: "\<forall>kvs. provides p = Some kvs \<longrightarrow> (\<forall>k \<in> fst ` set kvs. inject k ?m2 = None)"
    using uninstall_installed(3)[OF got] by (simp add: inject_def)
  have d1: "\<forall>f. onMount h = Some f \<longrightarrow> f \<in> set (invoked_by ?m2 (triggerMount env el ?m2))"
    by (simp add: invoked_by_trigger h2 h1 register_hooks_def push_hook_member)
  have d2: "\<forall>f. onUnmount h = Some f \<longrightarrow> f \<in> set (invoked_by ?m2 (triggerUnmount env el ?m2))"
    by (simp add: invoked_by_trigger h2 h1 register_hooks_def push_hook_member)
  have d3: "\<forall>f. beforeStateUpdate h = Some f \<longrightarrow>
      f \<in> set (invoked_by ?m2 (snd (applyBeforeStateUpdate env old new ?m2)))"
    by (simp add: invoked_by_before h2 h1 register_hooks_def push_hook_member)
  have d4: "\<forall>f. afterStateUpdate h = Some f \<longrightarrow>
      f \<in> set (invoked_by ?m2 (triggerAfterStateUpdate env v ?m2))"
    by (simp add: invoked_by_trigger h2 h1 register_hooks_def push_hook_member)
  show ?thesis using a b c d1 d2 d3 d4 h2 by blast
qed

lemma find_missing:
  "d \<in> set deps \<Longrightarrow> \<not> P d \<Longrightarrow> \<exists>dep. find (\<lambda>x. \<not> P x) deps = Some dep \<and> dep \<in> set deps \<and> \<not> P dep"
  by (induction deps) auto

text \<open>
  Claim C5, as the code has it. When the plugin's name is not installed and some name in
  its dependencies is not installed, \<^verbatim>\<open>use(plugin)\<close> throws, naming a dependency that is
  missing, and leaves the whole module state as it was: registry, hook subscriber lists,
  provides map and console. When a plugin of the same name is installed, \<^verbatim>\<open>use(plugin)\<close>
  returns normally and changes nothing but the console, which gets the warning.
\<close>

theorem use_checks_dependencies:
  "(\<not> hasPlugin (name p) m \<and> dependencies p = Some deps \<and> d \<in> set deps \<and> \<not> hasPlugin d m
      \<longrightarrow> (\<exists>dep. dep \<in> set deps \<and> \<not> hasPlugin dep m \<and>
                 use env p m = (Inl (MissingDependency (name p) dep), m))) \<and>
   (hasPlugin (name p) m
      \<longrightarrow> use env p m = (Inr (), m\<lparr>console := console m @ [WarnAlreadyInstalled (name p)]\<rparr>))"
proof (intro conjI impI)
  assume a: "\<not> hasPlugin (name p) m \<and> dependencies p = Some deps \<and> d \<in> set deps \<and> \<not> hasPlugin d m"
  then obtain dep where "find (\<lambda>x. \<not> map_has x (state_plugins m)) deps = Some dep"
    and "dep \<in> set deps" and "\<not> map_has dep (state_plugins m)"
    using find_missing[of d deps "\<lambda>x. map_has x (state_plugins m)"]
    by (auto simp: hasPlugin_def)
  then show "\<exists>dep. dep \<in> set deps \<and> \<not> hasPlugin dep m \<and>
                 use env p m = (Inl (MissingDependency (name p) dep), m)"
    using a by (auto simp: use_def hasPlugin_def missing_dependency_def)
next
  assume "hasPlugin (name p) m"
  then show "use env p m = (Inr (), m\<lparr>console := console m @ [WarnAlreadyInstalled (name p)]\<rparr>)"
    by (simp add: use_def hasPlugin_def)
qed

lemma with_base_eq:
  "with_base = \<lparr>state_plugins = [(''base'', base_plugin)],
     state_provides = [(''config'', JStr ''/api'')],
     hookSubscribers = \<lparr>subs_onMount = [], subs_onUnmount = [], subs_beforeStateUpdate = [],
       subs_afterStateUpdate = []\<rparr>,
     console = [LogInstalled ''base'' None], hook_calls = []\<rparr>"
  by (simp add: with_base_def use_def map_has_def empty_manager_def base_plugin_def
      missing_dependency_def register_hooks_def register_provides_def register_provide_def
      call_install_def Let_def)

text \<open>The theorem at \<^verbatim>\<open>use(api)\<close> on the empty manager, where \<^verbatim>\<open>base\<close> is missing, and at
  a second \<^verbatim>\<open>use(base)\<close>.\<close>

theorem use_checks_dependencies_witness:
  "\<not> hasPlugin (name api_plugin) empty_manager \<and>
   dependencies api_plugin = Some [''base''] \<and> ''base'' \<in> set [''base''] \<and>
   \<not> hasPlugin ''base'' empty_manager \<and>
   use quiet api_plugin empty_manager = (Inl (MissingDependency ''api'' ''base''), empty_manager) \<and>
   hasPlugin (name base_plugin) with_base \<and>
   use quiet base_plugin with_base
     = (Inr (), with_base\<lparr>console := console with_base @ [WarnAlreadyInstalled ''base'']\<rparr>)"
proof -
  have h1: "\<not> hasPlugin (name api_plugin) empty_manager"
    by (simp add: hasPlugin_def map_has_def empty_manager_def)
  have h2: "dependencies api_plugin = Some [''base'']" by (simp add: api_plugin_def)
  have h3: "''base'' \<in> set [''base'']" by simp
  have h4: "\<not> hasPlugin ''base'' empty_manager"
    by (simp add: hasPlugin_def map_has_def empty_manager_def)
  have h5: "hasPlugin (name base_plugin) with_base"
    by (simp add: with_base_eq hasPlugin_def map_has_def base_plugin_def)
  have n1: "name api_plugin = ''api''" by (simp add: api_plugin_def)
  have n2: "name base_plugin = ''base''" by (simp add: base_plugin_def)
  from use_checks_dependencies[of api_plugin empty_manager "[''base'']" "''base''" quiet]
    h1 h2 h3 h4
  have a: "use quiet api_plugin empty_manager
      = (Inl (MissingDependency ''api'' ''base''), empty_manager)"
    using n1 by auto
  from use_checks_dependencies[of base_plugin with_base "[]" "''''" quiet] h5
  have b: "use quiet base_plugin with_base
     = (Inr (), with_base\<lparr>console := console with_base @ [WarnAlreadyInstalled ''base'']\<rparr>)"
    using n2 by simp
  show ?thesis using h1 h2 h3 h4 h5 a b by blast
qed

lemma base_removed_eq:
  "base_removed = \<lparr>state_plugins = [(''api'', api_plugin)],
     state_provides = [(''fetch'', JRef 7)],
     hookSubscribers = \<lparr>subs_onMount = [2], subs_onUnmount = [3], subs_beforeStateUpdate = [4],
       subs_afterStateUpdate = [5]\<rparr>,
     console = [LogInstalled ''base'' None, LogInstalled ''api'' (Some ''1.0.0''),
       LogUninstalled ''base''],
     hook_calls = [(1, [])]\<rparr>"
  by (simp add: base_removed_def with_base_eq use_def uninstall_def map_has_def map_get_def
      map_delete_def api_plugin_def base_plugin_def missing_dependency_def register_hooks_def
      register_provides_def register_provide_def call_install_def push_hook_def quiet_def Let_def)

text \<open>Claim C5 as stated fails where both of its cases apply: after \<^verbatim>\<open>use(base)\<close>,
  \<^verbatim>\<open>use(api)\<close> and \<^verbatim>\<open>uninstall('base')\<close>, the dependency of \<^verbatim>\<open>api\<close> is not installed, and
  \<^verbatim>\<open>use(api)\<close> does not throw: the name check comes first.\<close>

theorem use_installed_name_unmet_dependency:
  "dependencies api_plugin = Some [''base''] \<and>
   \<not> hasPlugin ''base'' base_removed \<and>
   use quiet api_plugin base_removed
     = (Inr (), base_removed\<lparr>console := console base_removed @ [WarnAlreadyInstalled ''api'']\<rparr>)"
  by (simp add: base_removed_eq use_def hasPlugin_def map_has_def api_plugin_def)

text \<open>The theorem at \<^verbatim>\<open>use(api)\<close> after \<^verbatim>\<open>use(base)\<close>: the four lists still hold the
  hooks 2 to 5, and \<^verbatim>\<open>triggerMount\<close> invokes hook 2.\<close>

theorem uninstall_keeps_hook_subscribers_witness:
  "\<not> hasPlugin (name api_plugin) with_base \<and>
   missing_dependency api_plugin with_base = None \<and>
   hooks api_plugin = Some \<lparr>install = Some 1, onMount = Some 2, onUnmount = Some 3,
       beforeStateUpdate = Some 4, afterStateUpdate = Some 5\<rparr> \<and>
   hookSubscribers (snd (uninstall ''api'' (snd (use quiet api_plugin with_base))))
     = \<lparr>subs_onMount = [2], subs_onUnmount = [3], subs_beforeStateUpdate = [4],
        subs_afterStateUpdate = [5]\<rparr> \<and>
   \<not> hasPlugin ''api'' (snd (uninstall ''api'' (snd (use quiet api_plugin with_base)))) \<and>
   inject ''fetch'' (snd (uninstall ''api'' (snd (use quiet api_plugin with_base)))) = None \<and>
   2 \<in> set (invoked_by (snd (uninstall ''api'' (snd (use quiet api_plugin with_base))))
           (triggerMount quiet (JRef 0)
              (snd (uninstall ''api'' (snd (use quiet api_plugin with_base))))))"
proof -
  let ?h = "\<lparr>install = Some 1, onMount = Some 2, onUnmount = Some 3,
       beforeStateUpdate = Some 4, afterStateUpdate = Some (5::nat)\<rparr>"
  have h1: "\<not> hasPlugin (name api_plugin) with_base"
    by (simp add: with_base_eq hasPlugin_def map_has_def api_plugin_def)
  have h2: "missing_dependency api_plugin with_base = None"
    by (simp add: with_base_eq missing_dependency_def map_has_def api_plugin_def)
  have h3: "hooks api_plugin = Some ?h" by (simp add: api_plugin_def)
  have n: "name api_plugin = ''api''" by (simp add: api_plugin_def)
  have pr: "provides api_plugin = Some [(''fetch'', JRef 7)]" by (simp add: api_plugin_def)
  have hs: "hookSubscribers (snd (use quiet api_plugin with_base))
     = \<lparr>subs_onMount = [2], subs_onUnmount = [3], subs_beforeStateUpdate = [4],
        subs_afterStateUpdate = [5]\<rparr>"
    by (simp add: with_base_eq use_def map_has_def api_plugin_def base_plugin_def
        missing_dependency_def register_hooks_def register_provides_def register_provide_def
        call_install_def push_hook_def quiet_def Let_def)
  note t = uninstall_keeps_hook_subscribers[of api_plugin with_base ?h quiet "JRef 0"
      JUndefined JUndefined JUndefined, OF h1 h2 h3, unfolded n]
  have a: "hookSubscribers (snd (uninstall ''api'' (snd (use quiet api_plugin with_base))))
     = \<lparr>subs_onMount = [2], subs_onUnmount = [3], subs_beforeStateUpdate = [4],
        subs_afterStateUpdate = [5]\<rparr>"
    using t hs by simp
  have b: "\<not> hasPlugin ''api'' (snd (uninstall ''api'' (snd (use quiet api_plugin with_base))))"
    using t by blast
  have c: "inject ''fetch'' (snd (uninstall ''api'' (snd (use quiet api_plugin with_base)))) = None"
    using t pr by simp
  have d: "2 \<in> set (invoked_by (snd (uninstall ''api'' (snd (use quiet api_plugin with_base))))
           (triggerMount quiet (JRef 0)
              (snd (uninstall ''api'' (snd (use quiet api_plugin with_base))))))"
    using t by simp
  show ?thesis using h1 h2 h3 a b c d by blast
qed

section \<open>Forms: validate and handleSubmit\<close>

lemma rule_errors_empty: "(rule_errors f v = []) = list_all (\<lambda>rule. valid (rule v)) (fieldRules f)"
  by (simp add: rule_errors_def validate_value_def list_all_iff filter_empty_conv)

lemma field_validate_eq: "field_validate f = (passes f, validated f)"
  by (simp add: field_validate_def updateState_def validated_def passes_def Let_def
      rule_errors_empty)

lemma validate_fields_eq:
  "validate_fields fs a =
     (a \<and> list_all (\<lambda>e. passes (snd e)) fs, map (\<lambda>e. (fst e, validated (snd e))) fs)"
  by (induction fs arbitrary: a) (auto simp: field_validate_eq Let_def)

lemma login_form_fields:
  "form_fields login_form =
     [(''email'', \<lparr>fieldRules = [required ''This field is required''],
          validateOnChange = True, validateOnBlur = True,
          fstate = \<lparr>fvalue = '''', touched = False, dirty = False, fvalid = True, errors = []\<rparr>\<rparr>),
      (''password'', \<lparr>fieldRules = [required ''This field is required'',
                               custom (\<lambda>v. 8 \<le> length v) ''Must be at least 8 characters''],
          validateOnChange = True, validateOnBlur = True,
          fstate = \<lparr>fvalue = ''abc'', touched = False, dirty = True, fvalid = False,
                    errors = [Some ''Must be at least 8 characters'']\<rparr>\<rparr>)]"
  by (simp add: login_form_def createForm_def init_field_def createFieldValidator_def
      field_setValue_def updateState_def rule_errors_def validate_value_def required_def
      custom_def Let_def)

lemma filled_form_fields:
  "form_fields filled_form =
     [(''email'', \<lparr>fieldRules = [required ''This field is required''],
          validateOnChange = True, validateOnBlur = True,
          fstate = \<lparr>fvalue = ''a@b.c'', touched = False, dirty = True, fvalid = True,
                    errors = []\<rparr>\<rparr>)]"
  by (simp add: filled_form_def createForm_def init_field_def createFieldValidator_def
      field_setValue_def updateState_def rule_errors_def validate_value_def required_def Let_def)

text \<open>
  Claim C7. \<^verbatim>\<open>form.validate()\<close> returns true exactly when every field passes all of its
  rules, and it leaves every field validated, also those after a failing one: the field's
  errors are the messages of the rules that fail on its current value, in rule order, its
  value is unchanged, and its \<^verbatim>\<open>valid\<close> flag says whether all its rules hold.
\<close>

theorem form_validate_all_fields:
  "fst (form_validate fm) = (\<forall>e \<in> set (form_fields fm). passes (snd e)) \<and>
   form_fields (snd (form_validate fm))
     = map (\<lambda>e. (fst e, validated (snd e))) (form_fields fm) \<and>
   (\<forall>e \<in> set (form_fields fm).
      errors (fstate (validated (snd e)))
        = map message (filter (\<lambda>r. \<not> valid r)
            (map (\<lambda>rule. rule (fvalue (fstate (snd e)))) (fieldRules (snd e)))) \<and>
      fvalue (fstate (validated (snd e))) = fvalue (fstate (snd e)) \<and>
      fvalid (fstate (validated (snd e)))
        = (\<forall>rule \<in> set (fieldRules (snd e)). valid (rule (fvalue (fstate (snd e))))))"
  by (simp add: form_validate_def validate_fields_eq Let_def list_all_iff validated_def
      rule_errors_def validate_value_def passes_def)

text \<open>The theorem on a form whose first field is empty and whose second is too short: the
  result is false and both fields carry their error.\<close>

theorem form_validate_all_fields_witness:
  "fst (form_validate login_form) = False \<and>
   map (\<lambda>e. (fst e, errors (fstate (snd e)))) (form_fields (snd (form_validate login_form)))
     = [(''email'', [Some ''This field is required'']),
        (''password'', [Some ''Must be at least 8 characters''])]"
proof -
  note fs = login_form_fields
  note t = form_validate_all_fields[of login_form]
  have a: "fst (form_validate login_form) = False"
    using t by (simp add: fs passes_def required_def)
  have b: "map (\<lambda>e. (fst e, errors (fstate (snd e)))) (form_fields (snd (form_validate login_form)))
     = [(''email'', [Some ''This field is required'']),
        (''password'', [Some ''Must be at least 8 characters''])]"
    using t by (simp add: fs validated_def rule_errors_def validate_value_def required_def
        custom_def)
  show ?thesis using a b by blast
qed

lemma form_validate_frame:
  "submitting (snd (form_validate fm)) = submitting fm"
  "formState_sets (snd (form_validate fm)) = formState_sets fm"
  "onSubmit_calls (snd (form_validate fm)) = onSubmit_calls fm"
  by (simp_all add: form_validate_def Let_def)

text \<open>
  Claim C8. When validation fails, \<^verbatim>\<open>handleSubmit(fn)\<close> resolves to \<^verbatim>\<open>null\<close>, \<open>fn\<close> is not
  called and \<^verbatim>\<open>formState.set\<close> is not called. Otherwise \<^verbatim>\<open>submitting\<close> is true when \<open>fn\<close>
  is called, \<open>fn\<close> is called once with the collected values, and however its promise
  settles \<^verbatim>\<open>submitting\<close> is false afterwards: the flag was set to true and then to false,
  and the call ends with the result of \<open>fn\<close> or with its error.
\<close>

theorem handleSubmit_validates_and_resets:
  "(\<not> fst (form_validate fm) \<longrightarrow>
      handleSubmit onSubmit fm = (ReturnedNull, snd (form_validate fm)) \<and>
      onSubmit_calls (snd (handleSubmit onSubmit fm)) = onSubmit_calls fm \<and>
      formState_sets (snd (handleSubmit onSubmit fm)) = formState_sets fm \<and>
      submitting (snd (handleSubmit onSubmit fm)) = submitting fm) \<and>
   (fst (form_validate fm) \<longrightarrow>
      fst (handleSubmit_begin fm) = Inr (getValues (snd (form_validate fm))) \<and>
      submitting (snd (handleSubmit_begin fm)) \<and>
      onSubmit_calls (snd (handleSubmit_begin fm))
        = onSubmit_calls fm @ [getValues (snd (form_validate fm))] \<and>
      (\<forall>s :: 'r settlement. \<not> submitting (snd (handleSubmit_settle s (snd (handleSubmit_begin fm))))) \<and>
      handleSubmit onSubmit fm
        = handleSubmit_settle (onSubmit (getValues (snd (form_validate fm))))
            (snd (handleSubmit_begin fm)) \<and>
      fst (handleSubmit onSubmit fm)
        = (case onSubmit (getValues (snd (form_validate fm))) of
             Fulfilled r \<Rightarrow> Returned r | Rejected e \<Rightarrow> RejectedWith e) \<and>
      \<not> submitting (snd (handleSubmit onSubmit fm)) \<and>
      onSubmit_calls (snd (handleSubmit onSubmit fm))
        = onSubmit_calls fm @ [getValues (snd (form_validate fm))] \<and>
      formState_sets (snd (handleSubmit onSubmit fm)) = formState_sets fm @ [True, False])"
proof (intro conjI impI)
  assume bad: "\<not> fst (form_validate fm)"
  then have hs: "handleSubmit onSubmit fm = (ReturnedNull, snd (form_validate fm))"
    by (simp add: handleSubmit_def handleSubmit_begin_def Let_def)
  show "handleSubmit onSubmit fm = (ReturnedNull, snd (form_validate fm))" by (rule hs)
  show "onSubmit_calls (snd (handleSubmit onSubmit fm)) = onSubmit_calls fm"
    by (simp add: hs form_validate_frame)
  show "formState_sets (snd (handleSubmit onSubmit fm)) = formState_sets fm"
    by (simp add: hs form_validate_frame)
  show "submitting (snd (handleSubmit onSubmit fm)) = submitting fm"
    by (simp add: hs form_validate_frame)
next
  assume ok: "fst (form_validate fm)"
  let ?fm1 = "snd (form_validate fm)"
  let ?vals = "getValues ?fm1"
  have gv: "getValues (set_submitting True ?fm1) = ?vals"
    by (simp add: getValues_def set_submitting_def)
  have bg: "handleSubmit_begin fm
      = (Inr ?vals, (set_submitting True ?fm1)
           \<lparr>onSubmit_calls := onSubmit_calls (set_submitting True ?fm1) @ [?vals]\<rparr>)"
    using ok gv by (simp add: handleSubmit_begin_def Let_def)
  show "fst (handleSubmit_begin fm) = Inr ?vals" by (simp add: bg)
  show "submitting (snd (handleSubmit_begin fm))" by (simp add: bg set_submitting_def)
  show "onSubmit_calls (snd (handleSubmit_begin fm)) = onSubmit_calls fm @ [?vals]"
    by (simp add: bg set_submitting_def form_validate_frame)
  show "\<forall>s :: 'r settlement. \<not> submitting (snd (handleSubmit_settle s (snd (handleSubmit_begin fm))))"
    by (simp add: handleSubmit_settle_def set_submitting_def split: settlement.splits)
  show "handleSubmit onSubmit fm = handleSubmit_settle (onSubmit ?vals) (snd (handleSubmit_begin fm))"
    by (simp add: handleSubmit_def bg)
  show "fst (handleSubmit onSubmit fm)
        = (case onSubmit ?vals of Fulfilled r \<Rightarrow> Returned r | Rejected e \<Rightarrow> RejectedWith e)"
    by (simp add: handleSubmit_def bg handleSubmit_settle_def split: settlement.splits)
  show "\<not> submitting (snd (handleSubmit onSubmit fm))"
    by (simp add: handleSubmit_def bg handleSubmit_settle_def set_submitting_def
        split: settlement.splits)
  show "onSubmit_calls (snd (handleSubmit onSubmit fm)) = onSubmit_calls fm @ [?vals]"
    by (simp add: handleSubmit_def bg handleSubmit_settle_def set_submitting_def
        form_validate_frame split: settlement.splits)
  show "formState_sets (snd (handleSubmit onSubmit fm)) = formState_sets fm @ [True, False]"
    by (simp add: handleSubmit_def bg handleSubmit_settle_def set_submitting_def
        form_validate_frame split: settlement.splits)
qed

lemma login_form_invalid: "\<not> fst (form_validate login_form)"
  by (simp add: form_validate_def validate_fields_eq login_form_fields passes_def required_def)

lemma filled_form_valid: "fst (form_validate filled_form)"
  by (simp add: form_validate_def validate_fields_eq filled_form_fields passes_def required_def)

text \<open>The theorem on the invalid form above, and on a valid form with a callback that
  rejects.\<close>

theorem handleSubmit_validates_and_resets_witness:
  "\<not> fst (form_validate login_form) \<and>
   fst (handleSubmit failing_submit login_form) = ReturnedNull \<and>
   onSubmit_calls (snd (handleSubmit failing_submit login_form)) = [] \<and>
   formState_sets (snd (handleSubmit failing_submit login_form)) = [] \<and>
   fst (form_validate filled_form) \<and>
   fst (handleSubmit failing_submit filled_form) = RejectedWith ''network'' \<and>
   \<not> submitting (snd (handleSubmit failing_submit filled_form)) \<and>
   onSubmit_calls (snd (handleSubmit failing_submit filled_form)) = [[(''email'', ''a@b.c'')]] \<and>
   formState_sets (snd (handleSubmit failing_submit filled_form)) = [True, False]"
proof -
  note a = handleSubmit_validates_and_resets[of login_form failing_submit, THEN conjunct1,
      rule_format, OF login_form_invalid]
  note b = handleSubmit_validates_and_resets[of filled_form failing_submit, THEN conjunct2,
      rule_format, OF filled_form_valid]
  have l0: "onSubmit_calls login_form = []" "formState_sets login_form = []"
    by (simp_all add: login_form_def createForm_def)
  have f0: "onSubmit_calls filled_form = []" "formState_sets filled_form = []"
    by (simp_all add: filled_form_def createForm_def)
  have gv: "getValues (snd (form_validate filled_form)) = [(''email'', ''a@b.c'')]"
    by (simp add: getValues_def form_validate_def validate_fields_eq filled_form_fields
        validated_def Let_def) (simp add: filled_form_def createForm_def)
  have a1: "fst (handleSubmit failing_submit login_form) = ReturnedNull"
    using a[THEN conjunct1] by simp
  have a2: "onSubmit_calls (snd (handleSubmit failing_submit login_form)) = []"
    using a[THEN conjunct2, THEN conjunct1] l0 by simp
  have a3: "formState_sets (snd (handleSubmit failing_submit login_form)) = []"
    using a[THEN conjunct2, THEN conjunct2, THEN conjunct1] l0 by simp
  have bb: "fst (handleSubmit failing_submit filled_form)
        = (case failing_submit (getValues (snd (form_validate filled_form))) of
             Fulfilled r \<Rightarrow> Returned r | Rejected e \<Rightarrow> RejectedWith e)"
    "\<not> submitting (snd (handleSubmit failing_submit filled_form))"
    "onSubmit_calls (snd (handleSubmit failing_submit filled_form))
        = onSubmit_calls filled_form @ [getValues (snd (form_validate filled_form))]"
    "formState_sets (snd (handleSubmit failing_submit filled_form))
        = formState_sets filled_form @ [True, False]"
    using b by blast+
  have b1: "fst (handleSubmit failing_submit filled_form) = RejectedWith ''network''"
    using bb(1) by (simp add: failing_submit_def)
  have b2: "\<not> submitting (snd (handleSubmit failing_submit filled_form))" by (rule bb(2))
  have b3: "onSubmit_calls (snd (handleSubmit failing_submit filled_form)) = [[(''email'', ''a@b.c'')]]"
    using bb(3) by (simp add: f0 gv)
  have b4: "formState_sets (snd (handleSubmit failing_submit filled_form)) = [True, False]"
    using bb(4) by (simp add: f0)
  show ?thesis
    using login_form_invalid filled_form_valid a1 a2 a3 b1 b2 b3 b4 by blast
qed

section \<open>Table: the sort cycle\<close>

lemma getProcessedData_result:
  "fst (getProcessedData lt t s) = next_ref s"
  "arrays (snd (getProcessedData lt t s)) (next_ref s) = processed lt t s"
  "r \<noteq> next_ref s \<Longrightarrow> arrays (snd (getProcessedData lt t s)) r = arrays s r"
  "next_ref (snd (getProcessedData lt t s)) = Suc (next_ref s)"
  by (simp_all add: getProcessedData_def new_array_def sort_in_place_def processed_def Let_def
      split: option.splits)

lemma toggleSort_frame:
  "data (toggleSort k t) = data t" "pagination (toggleSort k t) = pagination t"
  "currentPage (toggleSort k t) = currentPage t"
  by (simp_all add: toggleSort_def Let_def)

lemma toggleSort_steps:
  assumes "key (sortState t) \<noteq> Some k"
  shows "sortState (toggleSort k t) = \<lparr>key = Some k, direction = Some Asc\<rparr>"
    and "sortState (toggleSort k (toggleSort k t)) = \<lparr>key = Some k, direction = Some Desc\<rparr>"
    and "sortState (toggleSort k (toggleSort k (toggleSort k t))) = \<lparr>key = None, direction = None\<rparr>"
  using assms by (simp_all add: toggleSort_def Let_def)

text \<open>From a state in which the column is the sort key, three toggles lead back to that
  state: the sort state has period three on a column.\<close>

lemma toggleSort_period_three:
  assumes "key (sortState t) = Some k" and "direction (sortState t) \<noteq> None"
  shows "sortState (toggleSort k (toggleSort k (toggleSort k t))) = sortState t"
proof (cases "direction (sortState t) = Some Asc")
  case True
  then show ?thesis using assms(1) by (simp add: toggleSort_def Let_def)
next
  case False
  then have "direction (sortState t) = Some Desc"
    using assms(2) by (cases "direction (sortState t)") (auto intro: sort_direction.exhaust)
  then show ?thesis using assms(1) by (simp add: toggleSort_def Let_def)
qed

text \<open>
  Claim C6. On a sortable column that is not the current sort key, as in a new table,
  three header clicks take the sort state to ascending, to descending and back to
  \<^verbatim>\<open>{key: null, direction: null}\<close>, and the array the table then processes has the content
  of the data prop in its order. In every state the processed array is a new array, the
  caller's array is unchanged, the processed array is the whole data, sorted when a sort is
  set, and with pagination the page is a slice of that processed array.
\<close>

theorem sort_cycle_restores_order:
  assumes "sortable col"
    and "key (sortState t) \<noteq> Some (col_key col)"
    and "data t < next_ref s"
  shows "sortState (click_header col t) = \<lparr>key = Some (col_key col), direction = Some Asc\<rparr> \<and>
         sortState (click_header col (click_header col t))
           = \<lparr>key = Some (col_key col), direction = Some Desc\<rparr> \<and>
         sortState (click_header col (click_header col (click_header col t)))
           = \<lparr>key = None, direction = None\<rparr> \<and>
         arrays (snd (getProcessedData lt (click_header col (click_header col (click_header col t))) s))
                (fst (getProcessedData lt (click_header col (click_header col (click_header col t))) s))
           = arrays s (data t) \<and>
         fst (getProcessedData lt t s) \<noteq> data t \<and>
         arrays (snd (getProcessedData lt t s)) (data t) = arrays s (data t) \<and>
         arrays (snd (getProcessedData lt t s)) (fst (getProcessedData lt t s))
           = (if sorting t
              then js_sort (comparator lt (the (key (sortState t))) (the (direction (sortState t))))
                     (arrays s (data t))
              else arrays s (data t)) \<and>
         (\<forall>pg. pagination t = Some pg \<and> enabled pg \<longrightarrow>
            arrays (snd (getPaginatedData lt t s)) (fst (getPaginatedData lt t s))
              = js_slice (arrays (snd (getProcessedData lt t s)) (fst (getProcessedData lt t s)))
                  ((currentPage t - 1) * pageSize pg)
                  ((currentPage t - 1) * pageSize pg + pageSize pg))"
proof -
  let ?k = "col_key col"
  let ?t3 = "toggleSort ?k (toggleSort ?k (toggleSort ?k t))"
  have c: "\<And>u. click_header col u = toggleSort ?k u"
    using assms(1) by (simp add: click_header_def)
  note st = toggleSort_steps[OF assms(2)]
  have d3: "data ?t3 = data t" by (simp add: toggleSort_frame)
  have p3: "processed lt ?t3 s = arrays s (data t)"
    by (simp add: processed_def st(3) d3)
  have a: "arrays (snd (getProcessedData lt ?t3 s)) (fst (getProcessedData lt ?t3 s))
      = arrays s (data t)"
    by (simp add: getProcessedData_result p3)
  have b: "fst (getProcessedData lt t s) \<noteq> data t"
    using assms(3) by (simp add: getProcessedData_result)
  have b2: "arrays (snd (getProcessedData lt t s)) (data t) = arrays s (data t)"
    using assms(3) by (simp add: getProcessedData_result)
  have b3: "arrays (snd (getProcessedData lt t s)) (fst (getProcessedData lt t s))
           = (if sorting t
              then js_sort (comparator lt (the (key (sortState t))) (the (direction (sortState t))))
                     (arrays s (data t))
              else arrays s (data t))"
    by (simp add: getProcessedData_result processed_def sorting_def split: option.splits)
  have pgd: "\<forall>pg. pagination t = Some pg \<and> enabled pg \<longrightarrow>
            arrays (snd (getPaginatedData lt t s)) (fst (getPaginatedData lt t s))
              = js_slice (arrays (snd (getProcessedData lt t s)) (fst (getProcessedData lt t s)))
                  ((currentPage t - 1) * pageSize pg)
                  ((currentPage t - 1) * pageSize pg + pageSize pg)"
    by (auto simp: getPaginatedData_def new_array_def Let_def split: prod.splits)
  show ?thesis
    unfolding c using st a b b2 b3 pgd by blast
qed

text \<open>The theorem on a new table of three rows and its column \<^verbatim>\<open>age\<close>.\<close>

theorem sort_cycle_restores_order_witness:
  "sortable age_column \<and>
   key (sortState people_table) \<noteq> Some (col_key age_column) \<and>
   data people_table < next_ref people_store \<and>
   sortState (click_header age_column people_table) = \<lparr>key = Some ''age'', direction = Some Asc\<rparr> \<and>
   sortState (click_header age_column (click_header age_column (click_header age_column people_table)))
     = \<lparr>key = None, direction = None\<rparr> \<and>
   arrays (snd (getProcessedData num_lt
              (click_header age_column (click_header age_column (click_header age_column people_table)))
              people_store))
          (fst (getProcessedData num_lt
              (click_header age_column (click_header age_column (click_header age_column people_table)))
              people_store))
     = people"
proof -
  have h1: "sortable age_column" by (simp add: age_column_def)
  have h2: "key (sortState people_table) \<noteq> Some (col_key age_column)"
    by (simp add: people_table_def Table_def)
  have h3: "data people_table < next_ref people_store"
    by (simp add: people_table_def Table_def people_store_def)
  have d: "arrays people_store (data people_table) = people"
    by (simp add: people_table_def Table_def people_store_def)
  have k: "col_key age_column = ''age''" by (simp add: age_column_def)
  note t = sort_cycle_restores_order[OF h1 h2 h3, of num_lt, unfolded d k]
  show ?thesis using h1 h2 h3 t by blast
qed

section \<open>DatePicker: disabled dates\<close>

lemma isDateDisabled_iff:
  "isDateDisabled d mn mx dd =
     ((\<exists>m. mn = Some m \<and> date_lt d m) \<or> (\<exists>m. mx = Some m \<and> date_lt m d) \<or>
      (\<exists>ds. dd = Some ds \<and> (\<exists>e \<in> set ds. isSameDay e d)))"
  by (auto simp: isDateDisabled_def list_ex_iff split: option.splits)

lemma grid_button:
  "b \<in> set (buildCalendarGrid p) \<Longrightarrow>
   \<exists>d out. b = createDayButton p d out"
  by (auto simp: buildCalendarGrid_def Let_def)

text \<open>The two helpers at years that \<^verbatim>\<open>new Date\<close> reads as 1900 + year, and at ordinary
  ones: February 1900 has 28 days and February 2000 has 29, 1 January 1950 and
  1 November 2026 are Sundays, 1 January 1970 is a Thursday.\<close>

lemma month_helpers_values:
  "getDaysInMonth 0 1 = 28"
  "getDaysInMonth 2000 1 = 29"
  "getDaysInMonth 2026 11 = 31"
  "getFirstDayOfMonth 50 0 = 0"
  "getFirstDayOfMonth 2026 10 = 0"
  "getFirstDayOfMonth 1970 0 = 4"
  by (simp_all add: getDaysInMonth_def getFirstDayOfMonth_def full_year_def month_length_def
      weekday_of_first_def is_leap_def Let_def)

text \<open>
  Claim C9, as the code has it. A date is disabled exactly when it is before \<^verbatim>\<open>minDate\<close>,
  or after \<^verbatim>\<open>maxDate\<close>, or on the same calendar day (year, month and day of the month, at
  any time of that day) as an entry of \<^verbatim>\<open>disabledDates\<close>. Every button of the calendar grid
  carries the \<^verbatim>\<open>disabled\<close> attribute exactly when its date is disabled; a click on a
  disabled button, and even a direct call of its handler, changes nothing and calls
  \<^verbatim>\<open>onChange\<close> never; a click on any other button calls \<^verbatim>\<open>onChange\<close> once with its date.
\<close>

theorem disabled_dates_are_not_selectable:
  "(isDateDisabled d (minDate p) (maxDate p) (disabledDates p) =
      ((\<exists>m. minDate p = Some m \<and> date_lt d m) \<or>
       (\<exists>m. maxDate p = Some m \<and> date_lt m d) \<or>
       (\<exists>ds. disabledDates p = Some ds \<and> (\<exists>e \<in> set ds. isSameDay e d)))) \<and>
   (\<forall>b \<in> set (buildCalendarGrid p).
      attr_disabled b
        = isDateDisabled (btn_date b) (minDate p) (maxDate p) (disabledDates p) \<and>
      (attr_disabled b \<longrightarrow> (\<forall>q. click_day b q = q \<and> onClick b q = q)) \<and>
      (\<not> attr_disabled b \<longrightarrow>
         (\<forall>q. onChange_calls (click_day b q) = onChange_calls q @ [Some (btn_date b)])))"
proof (intro conjI ballI)
  show "isDateDisabled d (minDate p) (maxDate p) (disabledDates p) =
      ((\<exists>m. minDate p = Some m \<and> date_lt d m) \<or>
       (\<exists>m. maxDate p = Some m \<and> date_lt m d) \<or>
       (\<exists>ds. disabledDates p = Some ds \<and> (\<exists>e \<in> set ds. isSameDay e d)))"
    by (rule isDateDisabled_iff)
next
  fix b assume "b \<in> set (buildCalendarGrid p)"
  then obtain d0 out where b: "b = createDayButton p d0 out" using grid_button by blast
  show "attr_disabled b = isDateDisabled (btn_date b) (minDate p) (maxDate p) (disabledDates p)"
    by (simp add: b createDayButton_def Let_def)
  show "attr_disabled b \<longrightarrow> (\<forall>q. click_day b q = q \<and> onClick b q = q)"
    by (simp add: b createDayButton_def Let_def click_day_def onClick_def)
  show "\<not> attr_disabled b \<longrightarrow>
         (\<forall>q. onChange_calls (click_day b q) = onChange_calls q @ [Some (btn_date b)])"
    by (simp add: b createDayButton_def Let_def click_day_def onClick_def selectDate_def)
qed

lemma november_grid:
  "createDayButton november (mk_date 2026 10 11) False \<in> set (buildCalendarGrid november)"
  "createDayButton november (mk_date 2026 10 12) False \<in> set (buildCalendarGrid november)"
  by (simp_all add: buildCalendarGrid_def Let_def november_def mk_date_def full_year_def
      getDaysInMonth_def month_length_def)

text \<open>The theorem on the grid of November 2026: the 11th is disabled and a click on it
  calls nothing, the 12th is not and a click on it calls \<^verbatim>\<open>onChange\<close>.\<close>

theorem disabled_dates_are_not_selectable_witness:
  "createDayButton november (mk_date 2026 10 11) False \<in> set (buildCalendarGrid november) \<and>
   attr_disabled (createDayButton november (mk_date 2026 10 11) False) \<and>
   onChange_calls (click_day (createDayButton november (mk_date 2026 10 11) False) november) = [] \<and>
   createDayButton november (mk_date 2026 10 12) False \<in> set (buildCalendarGrid november) \<and>
   \<not> attr_disabled (createDayButton november (mk_date 2026 10 12) False) \<and>
   onChange_calls (click_day (createDayButton november (mk_date 2026 10 12) False) november)
     = [Some (mk_date 2026 10 12)]"
proof -
  let ?b11 = "createDayButton november (mk_date 2026 10 11) False"
  let ?b12 = "createDayButton november (mk_date 2026 10 12) False"
  note t = disabled_dates_are_not_selectable[of "mk_date 2026 10 11" november]
  have d11: "attr_disabled ?b11"
    by (simp add: createDayButton_def isDateDisabled_def november_def mk_date_def full_year_def
        date_lt_def isSameDay_def Let_def)
  have d12: "\<not> attr_disabled ?b12"
    by (simp add: createDayButton_def isDateDisabled_def november_def mk_date_def full_year_def
        date_lt_def isSameDay_def Let_def)
  have e: "onChange_calls november = []" by (simp add: november_def)
  have bd: "btn_date ?b12 = mk_date 2026 10 12" by (simp add: createDayButton_def Let_def)
  have c11: "onChange_calls (click_day ?b11 november) = []"
    using t november_grid(1) d11 e by auto
  have c12: "onChange_calls (click_day ?b12 november) = [Some (mk_date 2026 10 12)]"
    using t november_grid(2) d12 e bd by auto
  show ?thesis using november_grid d11 d12 c11 c12 by blast
qed

text \<open>
  Claim C9 as stated fails on the exact match. In the grid of November 2026 the button of
  the 11th holds local midnight of that day. Its date is not before the minimum and not
  after the maximum, and it is not an entry of \<^verbatim>\<open>disabledDates\<close>, whose only entry is the
  11th at one o'clock, another time value; the date is disabled all the same, since
  \<^verbatim>\<open>isSameDay\<close> compares year, month and day only.
\<close>

theorem same_day_entry_disables_other_time:
  "createDayButton november (mk_date 2026 10 11) False \<in> set (buildCalendarGrid november) \<and>
   btn_date (createDayButton november (mk_date 2026 10 11) False)
     = \<lparr>year = 2026, month = 10, day = 11, time = 0\<rparr> \<and>
   minDate november = Some \<lparr>year = 2026, month = 10, day = 3, time = 50400000\<rparr> \<and>
   \<not> date_lt \<lparr>year = 2026, month = 10, day = 11, time = 0\<rparr>
           \<lparr>year = 2026, month = 10, day = 3, time = 50400000\<rparr> \<and>
   maxDate november = Some \<lparr>year = 2026, month = 10, day = 20, time = 0\<rparr> \<and>
   \<not> date_lt \<lparr>year = 2026, month = 10, day = 20, time = 0\<rparr>
           \<lparr>year = 2026, month = 10, day = 11, time = 0\<rparr> \<and>
   disabledDates november = Some [\<lparr>year = 2026, month = 10, day = 11, time = 3600000\<rparr>] \<and>
   \<lparr>year = 2026, month = 10, day = 11, time = 0\<rparr>
     \<notin> set [\<lparr>year = 2026, month = 10, day = 11, time = 3600000\<rparr>] \<and>
   isDateDisabled \<lparr>year = 2026, month = 10, day = 11, time = 0\<rparr>
     (minDate november) (maxDate november) (disabledDates november) \<and>
   attr_disabled (createDayButton november (mk_date 2026 10 11) False)"
proof -
  have g: "createDayButton november (mk_date 2026 10 11) False \<in> set (buildCalendarGrid november)"
    by (rule november_grid(1))
  have rest: "btn_date (createDayButton november (mk_date 2026 10 11) False)
     = \<lparr>year = 2026, month = 10, day = 11, time = 0\<rparr> \<and>
   minDate november = Some \<lparr>year = 2026, month = 10, day = 3, time = 50400000\<rparr> \<and>
   \<not> date_lt \<lparr>year = 2026, month = 10, day = 11, time = 0\<rparr>
           \<lparr>year = 2026, month = 10, day = 3, time = 50400000\<rparr> \<and>
   maxDate november = Some \<lparr>year = 2026, month = 10, day = 20, time = 0\<rparr> \<and>
   \<not> date_lt \<lparr>year = 2026, month = 10, day = 20, time = 0\<rparr>
           \<lparr>year = 2026, month = 10, day = 11, time = 0\<rparr> \<and>
   disabledDates november = Some [\<lparr>year = 2026, month = 10, day = 11, time = 3600000\<rparr>] \<and>
   \<lparr>year = 2026, month = 10, day = 11, time = 0\<rparr>
     \<notin> set [\<lparr>year = 2026, month = 10, day = 11, time = 3600000\<rparr>] \<and>
   isDateDisabled \<lparr>year = 2026, month = 10, day = 11, time = 0\<rparr>
     (minDate november) (maxDate november) (disabledDates november) \<and>
   attr_disabled (createDayButton november (mk_date 2026 10 11) False)"
    by (simp add: createDayButton_def isDateDisabled_def november_def mk_date_def full_year_def
        date_lt_def isSameDay_def Let_def)
  show ?thesis using g rest by blast
qed

section \<open>Opening a second modal\<close>

lemmas modal_defs = openModal_def closeModal_def start_closing_def setTimeout_def
  createFocusTrap_def cleanup_def remove_backdrop_def advance_def isModalOpen_def
  empty_page_def modal_A_def modal_B_def dialog_of_def close_button_of_def inside_def Let_def

lemma after_A_eq:
  "after_A =
     \<lparr>body_children = [1], body_overflow = ''hidden'', closing = [],
      escape_listeners = [1], trap_listeners = [2], activeElement = Some 3,
      activeModal = Some \<lparr>element = 1,
         cleanupFns = [RestoreOverflow '''', RemoveEscapeListener 1, ReleaseFocusTrap 2 (Some 0)]\<rparr>,
      timers = [], now = 0, onClose_calls = [], next_elem = 4\<rparr>"
  by (simp add: after_A_def modal_defs)

lemma after_A_B_eq:
  "after_A_B =
     \<lparr>body_children = [1, 4], body_overflow = ''hidden'', closing = [1, 2],
      escape_listeners = [1, 4], trap_listeners = [2, 5], activeElement = Some 6,
      activeModal = Some \<lparr>element = 4,
         cleanupFns = [RestoreOverflow ''hidden'', RemoveEscapeListener 4,
                       ReleaseFocusTrap 5 (Some 3)]\<rparr>,
      timers = [(200, CloseModalTimer)], now = 0, onClose_calls = [], next_elem = 7\<rparr>"
  by (simp add: after_A_B_def after_A_eq) (simp add: modal_defs)

lemma after_A_B_timer_eq:
  "after_A_B_timer =
     \<lparr>body_children = [1], body_overflow = ''hidden'', closing = [1, 2],
      escape_listeners = [1], trap_listeners = [2], activeElement = Some 3,
      activeModal = None, timers = [], now = 200, onClose_calls = [], next_elem = 7\<rparr>"
  by (simp add: after_A_B_timer_def after_A_B_eq) (simp add: modal_defs)

text \<open>
  Claim C2 on the code. With modal A on backdrop 1 open, \<^verbatim>\<open>openModal(B)\<close> attaches B on
  backdrop 4 beside it: two dialogs are in the document. When the timer set by
  \<^verbatim>\<open>closeModal\<close> fires, it cleans up the modal active then, which is B: B's backdrop is
  removed and A's stays, A's Escape listener and focus trap stay, the body's overflow stays
  hidden, the focus goes to A's close button, and no modal counts as open.
\<close>

theorem second_modal_orphans_first:
  "map_option element (activeModal after_A) = Some 1 \<and>
   map_option element (activeModal after_A_B) = Some 4 \<and>
   body_children after_A_B = [1, 4] \<and>
   body_children after_A_B_timer = [1] \<and>
   escape_listeners after_A_B_timer = [1] \<and>
   trap_listeners after_A_B_timer = [2] \<and>
   body_overflow after_A_B_timer = ''hidden'' \<and>
   activeElement after_A_B_timer = Some 3 \<and>
   \<not> isModalOpen after_A_B_timer \<and>
   timers after_A_B_timer = []"
  by (simp add: after_A_eq after_A_B_eq after_A_B_timer_eq isModalOpen_def)


end
